theory Spec2Isabelle
  imports Complex_Main
begin

section \<open>Data model of the equilibrium engine\<close>

text \<open>
  JavaScript numbers are modelled as exact reals; counts and indices (\<open>N\<close>, \<open>D\<close>, \<open>M\<close>,
  \<open>maxIter\<close>, \<open>topK\<close>, channel owners) as naturals.  Two-dimensional arrays are lists of rows.
  Rounding, infinities and \<open>NaN\<close> are outside the model: a division by zero, which yields an
  infinity or \<open>NaN\<close> in the program, is excluded by the hypotheses of the theorems that depend
  on it, and where the program can reach one on valid parameters the divisor is shown to be
  zero there.  Accumulations (\<open>sum += \<dots>\<close>, \<open>reduce\<close>) are written as \<open>sum_list\<close>.  Array reads
  are in range whenever the parameter object is \<open>wellFormed\<close> (defined below); the one read
  that can fail on well-formed parameters is modelled as the exception it throws.
\<close>

datatype ChannelType = TReal | TDecoy | TInactive
datatype JammerStrategy = J1_uniform | J2_topK | J3_optimization
datatype JammerObjective = Deception | Oracle
datatype AttackerMode = Coordinated | Independent

record ChannelSummary =
  channel :: nat
  owner :: nat
  channelType :: ChannelType
  totalDefenderPower :: real
  totalAttackerPower :: real
  sinr :: real
  rate :: real
  h :: real
  g :: real
  isActive :: bool

record ChannelConfig =
  type :: ChannelType
  owner :: nat

record EquilibriumParams =
  N :: nat
  D :: nat
  M :: nat
  PT :: "real list"
  PJ :: "real list"
  sigma2 :: real
  tau :: real
  h :: "real list list"
  g :: "real list list"
  alpha :: real
  maxIter :: nat
  epsilon :: real
  channelConfig :: "ChannelConfig list"
  jammerStrategy :: JammerStrategy
  jammerObjective :: JammerObjective
  attackerMode :: AttackerMode
  topK :: nat
  randomInit :: bool

record PlayerAllocation =
  playerId :: nat
  allocation :: "real list"
  utility :: real

record EquilibriumMetrics =
  jammerWasteOnDecoys :: real
  dilutionFactor :: real
  oracleGap :: real
  improvementOverNoDecoys :: real
  totalRealThroughput :: real
  totalDecoyPower :: real
  activeChannelCount :: nat
  realChannelCount :: nat
  symmetricEquilibrium :: bool

record ConvergenceEntry =
  iter :: nat
  maxChange :: real
  defenderUtilities :: "real list"
  attackerUtilities :: "real list"
  defenderDeltas :: "real list"
  attackerDeltas :: "real list"

text \<open>The run-level \<open>maxChange\<close> starts as \<open>Infinity\<close> before the first iteration.\<close>

datatype number = Finite real | Infinity

record EquilibriumResult =
  defenders :: "PlayerAllocation list"
  attackers :: "PlayerAllocation list"
  converged :: bool
  iterations :: nat
  maxChange :: number
  convergenceHistory :: "ConvergenceEntry list"
  channelSummary :: "ChannelSummary list"
  metrics :: EquilibriumMetrics

text \<open>
  Reading a row that does not exist (\<open>y[mm][i]\<close> with \<open>y[mm]\<close> undefined) throws a
  \<open>TypeError\<close>; this is the only exception the engine can raise on parameters whose arrays
  have the declared dimensions.
\<close>

datatype error = TypeError

section \<open>Projection primitive\<close>

text \<open>
  \<open>projectToSimplex\<close>: clamp every entry at zero while accumulating the clamped sum; when the
  sum is not positive every slot gets \<open>budget / length\<close>, otherwise every clamped entry is
  rescaled by \<open>budget / sum\<close>.
\<close>

definition projectToSimplex :: "real list \<Rightarrow> real \<Rightarrow> real list" where
  "projectToSimplex alloc budget =
     (let projected = map (\<lambda>v. max 0 v) alloc;
          sum = sum_list projected
      in if sum \<le> 0 then map (\<lambda>_. budget / real (length projected)) projected
         else map (\<lambda>v. (v / sum) * budget) projected)"


section \<open>Activation rule\<close>

text \<open>\<open>x[config.owner]?.[i] || 0\<close>: a missing row or entry reads as zero.\<close>

definition ownerPower :: "real list list \<Rightarrow> ChannelConfig \<Rightarrow> nat \<Rightarrow> real" where
  "ownerPower x config i =
     (if owner config < length x \<and> i < length (x ! owner config) then x ! owner config ! i else 0)"

text \<open>The active set is kept as the list of its members in insertion (ascending) order.\<close>

definition getActiveSet :: "real list list \<Rightarrow> EquilibriumParams \<Rightarrow> nat list" where
  "getActiveSet x p =
     filter (\<lambda>i. type (channelConfig p ! i) \<noteq> TInactive
                 \<and> tau p \<le> ownerPower x (channelConfig p ! i) i) [0..<N p]"

section \<open>Utilities and gradients\<close>

text \<open>\<open>sigma2 + \<Sum>\<^sub>m y[m][i] * g[m][i]\<close>, the denominator of every SINR.\<close>

definition totalInterference :: "EquilibriumParams \<Rightarrow> real list list \<Rightarrow> nat \<Rightarrow> real" where
  "totalInterference p y i = sigma2 p + sum_list (map (\<lambda>m. y ! m ! i * g p ! m ! i) [0..<M p])"

text \<open>
  \<open>calculateDefenderUtility\<close> receives the active set but never reads it: the channels that
  contribute are selected by owner, type and positive power only.
\<close>

definition calculateDefenderUtility ::
  "nat \<Rightarrow> real list list \<Rightarrow> real list list \<Rightarrow> EquilibriumParams \<Rightarrow> nat list \<Rightarrow> bool \<Rightarrow> real" where
  "calculateDefenderUtility d x y p activeSet onlyReal =
     sum_list (map (\<lambda>i.
        let config = channelConfig p ! i in
        if owner config \<noteq> d then 0
        else if onlyReal \<and> type config \<noteq> TReal then 0
        else if \<not> onlyReal \<and> type config = TInactive then 0
        else if x ! d ! i \<le> 0 then 0
        else ln (1 + (x ! d ! i * h p ! d ! i) / totalInterference p y i)) [0..<N p])"

definition calculateAttackerUtility ::
  "nat \<Rightarrow> real list list \<Rightarrow> real list list \<Rightarrow> EquilibriumParams \<Rightarrow> nat list \<Rightarrow> real" where
  "calculateAttackerUtility m x y p activeSet =
     - sum_list (map (\<lambda>d.
          if jammerObjective p = Oracle
          then calculateDefenderUtility d x y p activeSet True
          else calculateDefenderUtility d x y p activeSet False) [0..<D p])"

definition defenderGradient ::
  "nat \<Rightarrow> real list list \<Rightarrow> real list list \<Rightarrow> EquilibriumParams \<Rightarrow> real list" where
  "defenderGradient d x y p =
     map (\<lambda>i.
        let config = channelConfig p ! i in
        if owner config \<noteq> d then 0
        else if type config = TInactive then 0
        else if type config = TReal
             then h p ! d ! i / (totalInterference p y i + x ! d ! i * h p ! d ! i)
             else (if x ! d ! i < tau p then 0.1 else 0.01)) [0..<N p]"

text \<open>
  The attacker gradient reads \<open>y[mm][i]\<close> for every \<open>mm < M\<close> on each channel it scores; with
  fewer than \<open>M\<close> rows in \<open>y\<close> that read throws.
\<close>

fun collect :: "(error + 'a) list \<Rightarrow> error + 'a list" where
  "collect [] = Inr []"
| "collect (Inl e # rest) = Inl e"
| "collect (Inr v # rest) = (case collect rest of Inl e \<Rightarrow> Inl e | Inr vs \<Rightarrow> Inr (v # vs))"

definition attackerGradientAt ::
  "nat \<Rightarrow> real list list \<Rightarrow> real list list \<Rightarrow> EquilibriumParams \<Rightarrow> nat list \<Rightarrow> nat \<Rightarrow> error + real" where
  "attackerGradientAt m x y p activeSet i =
     (let config = channelConfig p ! i; own = owner config in
      if i \<notin> set activeSet then Inr 0
      else if jammerObjective p = Oracle \<and> type config \<noteq> TReal then Inr 0
      else if x ! own ! i \<le> 0 then Inr 0
      else if length y < M p then Inl TypeError
      else let sinr_term = x ! own ! i * h p ! own ! i; ti = totalInterference p y i
           in Inr ((sinr_term * g p ! m ! i) / (ti * (ti + sinr_term))))"

definition attackerGradient ::
  "nat \<Rightarrow> real list list \<Rightarrow> real list list \<Rightarrow> EquilibriumParams \<Rightarrow> nat list \<Rightarrow> error + real list" where
  "attackerGradient m x y p activeSet = collect (map (attackerGradientAt m x y p activeSet) [0..<N p])"

section \<open>Jammer strategies\<close>

record Scored =
  index :: nat
  score :: real

definition eligible :: "EquilibriumParams \<Rightarrow> nat \<Rightarrow> bool" where
  "eligible p i = (jammerObjective p \<noteq> Oracle \<or> type (channelConfig p ! i) = TReal)"

text \<open>
  \<open>scored.sort((a, b) => b.score - a.score)\<close> is a stable sort by descending score, which is
  \<open>sort_key\<close> on the negated score.
\<close>

definition applyJammerStrategy ::
  "nat \<Rightarrow> real list list \<Rightarrow> real list list \<Rightarrow> EquilibriumParams \<Rightarrow> nat list \<Rightarrow> error + real list" where
  "applyJammerStrategy m y x p activeSet =
     (let newY = replicate (N p) 0; activeList = activeSet in
      if length activeList = 0 then Inr newY
      else case jammerStrategy p of
        J1_uniform \<Rightarrow>
          (let power = PJ p ! m / real (length activeList);
               newY1 = fold (\<lambda>i acc. if jammerObjective p = Oracle \<and> type (channelConfig p ! i) \<noteq> TReal
                                      then acc else acc[i := power]) activeList newY;
               sum = sum_list newY1
           in if sum > 0 then Inr (map (\<lambda>i. (newY1 ! i / sum) * PJ p ! m) [0..<N p]) else Inr newY1)
      | J2_topK \<Rightarrow>
          (let scored = map (\<lambda>i. \<lparr>index = i, score = x ! owner (channelConfig p ! i) ! i * g p ! m ! i\<rparr>)
                            (filter (eligible p) activeList);
               sorted = sort_key (\<lambda>t. - score t) scored;
               targets = take (min (topK p) (length sorted)) sorted;
               totalScore = sum_list (map score targets)
           in Inr (fold (\<lambda>t acc. acc[index t := (if totalScore > 0 then (score t / totalScore) * PJ p ! m
                                                   else PJ p ! m / real (length targets))]) targets newY))
      | J3_optimization \<Rightarrow>
          (case attackerGradient m x y p activeSet of
             Inl e \<Rightarrow> Inl e
           | Inr grad \<Rightarrow>
              (let gradSum = sum_list (map (\<lambda>gi. max 0 gi) grad) in
               if gradSum > 0 then Inr (map (\<lambda>i. (max 0 (grad ! i) / gradSum) * PJ p ! m) [0..<N p])
               else let validChannels = filter (eligible p) activeList;
                        power = PJ p ! m / real (max 1 (length validChannels))
                    in Inr (fold (\<lambda>i acc. acc[i := power]) validChannels newY))))"

section \<open>Metrics and the symmetric-equilibrium flag\<close>

definition computeMetrics ::
  "real list list \<Rightarrow> real list list \<Rightarrow> EquilibriumParams \<Rightarrow> nat list \<Rightarrow> EquilibriumMetrics" where
  "computeMetrics x y p activeSet =
     (let cfg = (\<lambda>i. channelConfig p ! i);
          defPower = (\<lambda>i. ownerPower x (cfg i) i);
          jamPower = (\<lambda>i. sum_list (map (\<lambda>m. y ! m ! i) [0..<M p]));
          totalJammerPower = sum_list (map jamPower [0..<N p]);
          realCount = length (filter (\<lambda>i. type (cfg i) = TReal) [0..<N p]);
          throughput = sum_list (map (\<lambda>i.
             if type (cfg i) = TReal \<and> defPower i > 0
             then log 2 (1 + (defPower i * h p ! owner (cfg i) ! i) / totalInterference p y i)
             else 0) [0..<N p]);
          decoyPower = sum_list (map (\<lambda>i. if type (cfg i) = TDecoy then defPower i else 0) [0..<N p]);
          waste = sum_list (map (\<lambda>i. if type (cfg i) = TDecoy then jamPower i else 0) [0..<N p]);
          activeCount = length activeSet
      in \<lparr> jammerWasteOnDecoys = (if totalJammerPower > 0 then waste / totalJammerPower else 0),
           dilutionFactor = (if realCount > 0 then real activeCount / real realCount else 1),
           oracleGap = 0,
           improvementOverNoDecoys = 0,
           totalRealThroughput = throughput,
           totalDecoyPower = decoyPower,
           activeChannelCount = activeCount,
           realChannelCount = realCount,
           symmetricEquilibrium = False \<rparr>)"

text \<open>The L1 distance \<open>alloc.reduce((s, v, i) => s + |v - firstDef[i]|, 0)\<close>.\<close>

definition l1diff :: "real list \<Rightarrow> real list \<Rightarrow> real" where
  "l1diff alloc firstDef = sum_list (map (\<lambda>i. \<bar>alloc ! i - firstDef ! i\<bar>) [0..<length alloc])"

definition checkSymmetricEquilibrium ::
  "PlayerAllocation list \<Rightarrow> PlayerAllocation list \<Rightarrow> real \<Rightarrow> bool" where
  "checkSymmetricEquilibrium defs atts eps =
     (if length defs \<le> 1 then False
      else list_all (\<lambda>d. \<not> (l1diff (allocation (defs ! d)) (allocation (defs ! 0)) > eps * 10))
                    [1..<length defs])"

section \<open>Initialisation\<close>

text \<open>
  The pseudo-random source (\<open>seededRandom(seed)\<close> or \<open>Math.random\<close>) is a parameter \<open>rnd\<close>:
  \<open>rnd k\<close> is the value of the \<open>k\<close>-th call.  \<open>initDefender\<close> returns the allocation row of
  defender \<open>d\<close> and the number of calls made so far.
\<close>

text \<open>
  \<open>seededRandom(seed)\<close> keeps a state, initially the seed, and each call does
  \<open>state = (state * 1103515245 + 12345) & 0x7fffffff; return state / 0x7fffffff\<close>.
  The state is a non-negative integer held in a double.  The product can exceed \<open>2^53\<close>, so
  the multiplication and the addition each round to the nearest double, ties to even
  (\<open>roundToDouble\<close>); \<open>& 0x7fffffff\<close> keeps the low 31 bits.  \<open>seededRandom seed k\<close> is the
  value of call number \<open>k\<close>, counted from 0, for a non-negative integer seed.
\<close>

fun bitLength :: "nat \<Rightarrow> nat" where
  "bitLength n = (if n = 0 then 0 else Suc (bitLength (n div 2)))"

definition roundToDouble :: "nat \<Rightarrow> nat" where
  "roundToDouble n =
     (if n < 2 ^ 53 then n
      else let sh = bitLength n - 53; q = n div 2 ^ sh; r = n mod 2 ^ sh
           in (if 2 ^ sh < 2 * r \<or> (2 * r = 2 ^ sh \<and> odd q) then q + 1 else q) * 2 ^ sh)"

definition nextState :: "nat \<Rightarrow> nat" where
  "nextState state = roundToDouble (roundToDouble (state * 1103515245) + 12345) mod 2 ^ 31"

fun seededState :: "nat \<Rightarrow> nat \<Rightarrow> nat" where
  "seededState seed 0 = nextState seed"
| "seededState seed (Suc k) = nextState (seededState seed k)"

definition seededRandom :: "nat \<Rightarrow> nat \<Rightarrow> real" where
  "seededRandom seed k = real (seededState seed k) / 2147483647"

text \<open>\<open>weights = ownedChannels.map(() => random())\<close>, when \<open>c\<close> calls have been made before.\<close>

definition randomWeights :: "(nat \<Rightarrow> real) \<Rightarrow> nat \<Rightarrow> nat list \<Rightarrow> real list" where
  "randomWeights rnd c owned = map (\<lambda>k. rnd (c + k)) [0..<length owned]"

definition ownedChannels :: "EquilibriumParams \<Rightarrow> nat \<Rightarrow> nat list" where
  "ownedChannels p d =
     filter (\<lambda>i. owner (channelConfig p ! i) = d \<and> type (channelConfig p ! i) \<noteq> TInactive)
            [0..<length (channelConfig p)]"

definition initDecoys :: "EquilibriumParams \<Rightarrow> nat list \<Rightarrow> real list \<times> real \<Rightarrow> real list \<times> real" where
  "initDecoys p decoyChannels start =
     fold (\<lambda>i acc. case acc of (a, remaining) \<Rightarrow>
             let v = min (tau p) (remaining / real (max 1 (length decoyChannels)))
             in (a[i := v], remaining - v)) decoyChannels start"

definition initDefender :: "EquilibriumParams \<Rightarrow> (nat \<Rightarrow> real) \<Rightarrow> nat \<Rightarrow> nat \<Rightarrow> real list \<times> nat" where
  "initDefender p rnd c d =
     (let alloc = replicate (N p) 0; owned = ownedChannels p d in
      if length owned > 0 then
        if randomInit p then
          (let weights = randomWeights rnd c owned;
               sum = sum_list weights
           in (fold (\<lambda>idx a. a[owned ! idx := (weights ! idx / sum) * PT p ! d]) [0..<length owned] alloc,
               c + length owned))
        else
          (let realChannels = filter (\<lambda>i. type (channelConfig p ! i) = TReal) owned;
               decoyChannels = filter (\<lambda>i. type (channelConfig p ! i) = TDecoy) owned
           in case initDecoys p decoyChannels (alloc, PT p ! d) of (alloc1, remaining) \<Rightarrow>
                (if length realChannels > 0
                 then fold (\<lambda>i a. a[i := remaining / real (length realChannels)]) realChannels alloc1
                 else alloc1, c))
      else (alloc, c))"

fun initDefenders :: "EquilibriumParams \<Rightarrow> (nat \<Rightarrow> real) \<Rightarrow> nat \<Rightarrow> nat list \<Rightarrow> real list list" where
  "initDefenders p rnd c [] = []"
| "initDefenders p rnd c (d # ds) =
     (case initDefender p rnd c d of (alloc, c') \<Rightarrow> alloc # initDefenders p rnd c' ds)"

text \<open>Every attacker is seeded by the configured strategy, called with an empty \<open>y\<close>.\<close>

definition initAttackers :: "EquilibriumParams \<Rightarrow> real list list \<Rightarrow> error + real list list" where
  "initAttackers p x =
     (let activeSet = getActiveSet x p
      in collect (map (\<lambda>m. applyJammerStrategy m [] x p activeSet) [0..<M p]))"

section \<open>The best-response loop\<close>

record LoopState =
  st_x :: "real list list"
  st_y :: "real list list"
  st_converged :: bool
  st_iterations :: nat
  st_maxChange :: number
  st_history :: "ConvergenceEntry list"

definition stepSize :: real where
  "stepSize = 0.5"

definition damp :: "EquilibriumParams \<Rightarrow> real list \<Rightarrow> real list \<Rightarrow> real list" where
  "damp p old new = map (\<lambda>i. (1 - alpha p) * old ! i + alpha p * new ! i) [0..<N p]"

definition deltasOf :: "EquilibriumParams \<Rightarrow> real list \<Rightarrow> real list \<Rightarrow> real list" where
  "deltasOf p old newRow = map (\<lambda>i. \<bar>newRow ! i - old ! i\<bar>) [0..<N p]"

definition maxInto :: "real \<Rightarrow> real list \<Rightarrow> real" where
  "maxInto start deltas = fold (\<lambda>delta a. max a delta) deltas start"

text \<open>
  One defender's update.  The accumulator carries the matrix \<open>x\<close> being rewritten in place, the
  run-wide \<open>maxChange\<close> and the list of per-defender deltas.  Rows have \<open>N\<close> entries, so the
  loop over \<open>i < N\<close> rewrites the whole row.
\<close>

definition updateDefender ::
  "EquilibriumParams \<Rightarrow> real list list \<Rightarrow> real list list \<Rightarrow> nat
   \<Rightarrow> real list list \<times> real \<times> real list \<Rightarrow> real list list \<times> real \<times> real list" where
  "updateDefender p xOld y d acc =
     (case acc of (x, mc, dd) \<Rightarrow>
        let grad = defenderGradient d x y p;
            update = map (\<lambda>i. x ! d ! i + stepSize * grad ! i) [0..<length (x ! d)];
            projected = projectToSimplex update (PT p ! d);
            newRow = damp p (xOld ! d) projected;
            deltas = deltasOf p (xOld ! d) newRow
        in (x[d := newRow], maxInto mc deltas, dd @ [maxInto 0 deltas]))"

fun foldErr :: "('a \<Rightarrow> 'b \<Rightarrow> error + 'b) \<Rightarrow> 'a list \<Rightarrow> 'b \<Rightarrow> error + 'b" where
  "foldErr f [] acc = Inr acc"
| "foldErr f (a # as) acc = (case f a acc of Inl e \<Rightarrow> Inl e | Inr acc' \<Rightarrow> foldErr f as acc')"

definition candidate ::
  "EquilibriumParams \<Rightarrow> nat \<Rightarrow> real list list \<Rightarrow> real list list \<Rightarrow> nat list \<Rightarrow> error + real list" where
  "candidate p m y x newActiveSet =
     (if attackerMode p = Coordinated \<or> jammerStrategy p \<noteq> J3_optimization
      then applyJammerStrategy m y x p newActiveSet
      else case attackerGradient m x y p newActiveSet of
             Inl e \<Rightarrow> Inl e
           | Inr grad \<Rightarrow>
               Inr (projectToSimplex (map (\<lambda>i. y ! m ! i + stepSize * grad ! i) [0..<length (y ! m)])
                                     (PJ p ! m)))"

definition updateAttacker ::
  "EquilibriumParams \<Rightarrow> real list list \<Rightarrow> real list list \<Rightarrow> nat list \<Rightarrow> nat
   \<Rightarrow> real list list \<times> real \<times> real list \<Rightarrow> error + real list list \<times> real \<times> real list" where
  "updateAttacker p yOld x newActiveSet m acc =
     (case acc of (y, mc, ad) \<Rightarrow>
        case candidate p m y x newActiveSet of
          Inl e \<Rightarrow> Inl e
        | Inr newY \<Rightarrow>
            let newRow = damp p (yOld ! m) newY;
                deltas = deltasOf p (yOld ! m) newRow
            in Inr (y[m := newRow], maxInto mc deltas, ad @ [maxInto 0 deltas]))"

text \<open>The body of the loop for the 0-based counter \<open>it\<close>, up to and including the history record.\<close>

definition iterate :: "EquilibriumParams \<Rightarrow> nat \<Rightarrow> LoopState \<Rightarrow> error + LoopState" where
  "iterate p it s =
     (case fold (updateDefender p (st_x s) (st_y s)) [0..<D p] (st_x s, 0, []) of (x1, mc1, dd) \<Rightarrow>
        let newActiveSet = getActiveSet x1 p in
        case foldErr (updateAttacker p (st_y s) x1 newActiveSet) [0..<M p] (st_y s, mc1, []) of
          Inl e \<Rightarrow> Inl e
        | Inr (y1, mc2, ad) \<Rightarrow>
            Inr (s\<lparr> st_x := x1, st_y := y1, st_iterations := it + 1, st_maxChange := Finite mc2,
                    st_history := st_history s @
                      [\<lparr> iter = it + 1, maxChange = mc2,
                         defenderUtilities = map (\<lambda>d. calculateDefenderUtility d x1 y1 p newActiveSet True) [0..<D p],
                         attackerUtilities = map (\<lambda>m. calculateAttackerUtility m x1 y1 p newActiveSet) [0..<M p],
                         defenderDeltas = dd, attackerDeltas = ad \<rparr>] \<rparr>))"

fun belowEpsilon :: "number \<Rightarrow> real \<Rightarrow> bool" where
  "belowEpsilon (Finite a) e = (a < e)"
| "belowEpsilon Infinity e = False"

function runLoop :: "EquilibriumParams \<Rightarrow> nat \<Rightarrow> LoopState \<Rightarrow> error + LoopState" where
  "runLoop p it s =
     (if it < maxIter p then
        (case iterate p it s of
           Inl e \<Rightarrow> Inl e
         | Inr s' \<Rightarrow>
             if belowEpsilon (st_maxChange s') (epsilon p) then Inr (s'\<lparr> st_converged := True \<rparr>)
             else runLoop p (Suc it) s')
      else Inr s)"
  by pat_completeness auto
termination
  by (relation "measure (\<lambda>(p, it, s). maxIter p - it)") auto

section \<open>Result construction\<close>

definition summaryRow ::
  "EquilibriumParams \<Rightarrow> real list list \<Rightarrow> real list list \<Rightarrow> nat list \<Rightarrow> nat \<Rightarrow> ChannelSummary" where
  "summaryRow p x y finalActiveSet i =
     (let config = channelConfig p ! i;
          own = owner config;
          tdp = ownerPower x config i;
          tap = sum_list (map (\<lambda>ym. ym ! i) y);
          sinrV = (if tdp > 0 then (tdp * h p ! own ! i) / totalInterference p y i else 0);
          rateV = (if tdp > 0 then log 2 (1 + sinrV) else 0);
          avgH = (if own < length (h p) \<and> i < length (h p ! own) \<and> h p ! own ! i \<noteq> 0
                  then h p ! own ! i else 1);
          avgG = sum_list (map (\<lambda>gm. gm ! i) (g p)) / real (M p)
      in \<lparr> channel = i, owner = own, channelType = type config,
           totalDefenderPower = tdp, totalAttackerPower = tap, sinr = sinrV, rate = rateV,
           h = avgH, g = avgG, isActive = (i \<in> set finalActiveSet) \<rparr>)"

definition buildResult :: "EquilibriumParams \<Rightarrow> LoopState \<Rightarrow> EquilibriumResult" where
  "buildResult p s =
     (let x = st_x s; y = st_y s;
          finalActiveSet = getActiveSet x p;
          defs = map (\<lambda>d. \<lparr> playerId = d, allocation = x ! d,
                           utility = calculateDefenderUtility d x y p finalActiveSet True \<rparr>) [0..<D p];
          atts = map (\<lambda>m. \<lparr> playerId = m, allocation = y ! m,
                           utility = calculateAttackerUtility m x y p finalActiveSet \<rparr>) [0..<M p];
          summary = map (summaryRow p x y finalActiveSet) [0..<N p];
          mt = computeMetrics x y p finalActiveSet
      in \<lparr> defenders = defs, attackers = atts,
           converged = st_converged s, iterations = st_iterations s, maxChange = st_maxChange s,
           convergenceHistory = st_history s, channelSummary = summary,
           metrics = mt\<lparr> symmetricEquilibrium := checkSymmetricEquilibrium defs atts (epsilon p) \<rparr> \<rparr>)"

definition initialState :: "real list list \<Rightarrow> real list list \<Rightarrow> LoopState" where
  "initialState x y =
     \<lparr> st_x = x, st_y = y, st_converged = False, st_iterations = 0, st_maxChange = Infinity,
       st_history = [] \<rparr>"

definition runEquilibrium :: "EquilibriumParams \<Rightarrow> (nat \<Rightarrow> real) \<Rightarrow> error + EquilibriumResult" where
  "runEquilibrium p rnd =
     (let x = initDefenders p rnd 0 [0..<D p] in
      case initAttackers p x of
        Inl e \<Rightarrow> Inl e
      | Inr y \<Rightarrow>
          (case runLoop p 0 (initialState x y) of
             Inl e \<Rightarrow> Inl e
           | Inr s \<Rightarrow> Inr (buildResult p s)))"

section \<open>Well-formed and valid parameter objects\<close>

text \<open>
  \<open>wellFormed\<close>: every array has its declared dimensions and every channel owner is a defender.
  \<open>validParams\<close>: the input contract of the engine on top of that (positive counts,
  non-negative budgets and gains, \<open>sigma2 > 0\<close>, \<open>tau \<ge> 0\<close>, \<open>0 < alpha \<le> 1\<close>, \<open>maxIter \<ge> 1\<close>,
  \<open>epsilon > 0\<close>, \<open>topK \<ge> 1\<close>).
\<close>

definition wellFormed :: "EquilibriumParams \<Rightarrow> bool" where
  "wellFormed p =
     (length (PT p) = D p \<and> length (PJ p) = M p
      \<and> length (h p) = D p \<and> list_all (\<lambda>row. length row = N p) (h p)
      \<and> length (g p) = M p \<and> list_all (\<lambda>row. length row = N p) (g p)
      \<and> length (channelConfig p) = N p \<and> list_all (\<lambda>c. owner c < D p) (channelConfig p))"

definition validParams :: "EquilibriumParams \<Rightarrow> bool" where
  "validParams p =
     (wellFormed p \<and> 1 \<le> N p \<and> 1 \<le> D p \<and> 1 \<le> M p
      \<and> list_all (\<lambda>v. 0 \<le> v) (PT p) \<and> list_all (\<lambda>v. 0 \<le> v) (PJ p)
      \<and> 0 < sigma2 p \<and> 0 \<le> tau p
      \<and> list_all (list_all (\<lambda>v. 0 \<le> v)) (h p) \<and> list_all (list_all (\<lambda>v. 0 \<le> v)) (g p)
      \<and> 0 < alpha p \<and> alpha p \<le> 1 \<and> 1 \<le> maxIter p \<and> 0 < epsilon p \<and> 1 \<le> topK p)"

section \<open>Concrete parameter objects\<close>

text \<open>A constant stream of pseudo-random draws.\<close>

definition halfRandom :: "nat \<Rightarrow> real" where
  "halfRandom k = 1 / 2"

text \<open>One defender, one attacker, one channel: the base of the small examples below.\<close>

definition oneChannel :: "ChannelType \<Rightarrow> real \<Rightarrow> real \<Rightarrow> EquilibriumParams" where
  "oneChannel t budget threshold =
     \<lparr> N = 1, D = 1, M = 1, PT = [budget], PJ = [10], sigma2 = 1, tau = threshold,
       h = [[1]], g = [[1]], alpha = 3 / 10, maxIter = 1, epsilon = 1 / 1000,
       channelConfig = [\<lparr> type = t, owner = 0 \<rparr>],
       jammerStrategy = J1_uniform, jammerObjective = Deception, attackerMode = Coordinated,
       topK = 1, randomInit = False \<rparr>"

text \<open>A defender that owns a single decoy channel, with budget 10 and threshold 1/5.\<close>

definition decoyOnly :: EquilibriumParams where
  "decoyOnly = oneChannel TDecoy 10 (1 / 5)"

text \<open>A real channel whose owner's whole budget 1 stays below the threshold 2.\<close>

definition belowThreshold :: EquilibriumParams where
  "belowThreshold = oneChannel TReal 1 2"

text \<open>
  Two defenders with one real channel each and equal budgets 1/2; \<open>epsilon = 1/10\<close>, so that
  ten times epsilon is exactly the L1 distance between the two allocation rows.
\<close>

definition twoDefenders :: EquilibriumParams where
  "twoDefenders =
     \<lparr> N = 2, D = 2, M = 1, PT = [1 / 2, 1 / 2], PJ = [10], sigma2 = 1, tau = 1 / 10,
       h = [[1, 1], [1, 1]], g = [[1, 1]], alpha = 3 / 10, maxIter = 1, epsilon = 1 / 10,
       channelConfig = [\<lparr> type = TReal, owner = 0 \<rparr>, \<lparr> type = TReal, owner = 1 \<rparr>],
       jammerStrategy = J1_uniform, jammerObjective = Deception, attackerMode = Coordinated,
       topK = 1, randomInit = False \<rparr>"

section \<open>Request validation\<close>

text \<open>
  The parsed request body is an untyped JSON value.  A JSON number too large for a double parses
  to an infinity, which \<open>Number.isFinite\<close> rejects; \<open>JNonFinite\<close> stands for it.
\<close>

datatype json =
    JNull
  | JBool bool
  | JNumber real
  | JNonFinite
  | JString string
  | JArray "json list"
  | JObject "(string \<times> json) list"

text \<open>Property access: a missing property is \<open>undefined\<close>; of duplicate keys the last one wins.\<close>

fun field :: "json \<Rightarrow> string \<Rightarrow> json option" where
  "field (JObject kvs) k = map_of (rev kvs) k"
| "field other k = None"

text \<open>\<open>!body || typeof body !== 'object'\<close> lets objects and arrays through.\<close>

fun isObject :: "json \<Rightarrow> bool" where
  "isObject (JObject kvs) = True"
| "isObject (JArray vs) = True"
| "isObject other = False"

text \<open>
  An error message is kept as its template and arguments: \<open>MustBeFinite n\<close> is
  \<open>n must be a finite number\<close>, \<open>MustBeBetween n lo hi\<close> is \<open>n must be between lo and hi\<close>,
  \<open>MustBeArray n\<close> is \<open>n must be an array\<close>, \<open>ExceedsLength n k\<close> is
  \<open>n exceeds maximum length of k\<close>, and \<open>Text s\<close> is the literal \<open>s\<close>.
\<close>

datatype message =
    MustBeFinite string
  | MustBeBetween string real real
  | MustBeArray string
  | ExceedsLength string nat
  | Text string

datatype ValidationResult = Valid | Invalid message

definition MAX_N :: nat where "MAX_N = 100"
definition MAX_D :: nat where "MAX_D = 20"
definition MAX_M :: nat where "MAX_M = 20"
definition MAX_ITER :: nat where "MAX_ITER = 1000"
definition MAX_POWER :: real where "MAX_POWER = 10000"

definition validateNumber :: "json option \<Rightarrow> string \<Rightarrow> real \<Rightarrow> real \<Rightarrow> ValidationResult" where
  "validateNumber v name lo hi =
     (case v of
        Some (JNumber r) \<Rightarrow> if r < lo \<or> hi < r then Invalid (MustBeBetween name lo hi) else Valid
      | other \<Rightarrow> Invalid (MustBeFinite name))"

definition validateArray :: "json option \<Rightarrow> string \<Rightarrow> nat \<Rightarrow> ValidationResult" where
  "validateArray arr name maxLength =
     (case arr of
        Some (JArray vs) \<Rightarrow> if maxLength < length vs then Invalid (ExceedsLength name maxLength) else Valid
      | other \<Rightarrow> Invalid (MustBeArray name))"

text \<open>\<open>for (const check of checks) if (!check.valid) return check\<close>.\<close>

fun firstInvalid :: "ValidationResult list \<Rightarrow> ValidationResult" where
  "firstInvalid [] = Valid"
| "firstInvalid (Valid # rest) = firstInvalid rest"
| "firstInvalid (Invalid m # rest) = Invalid m"

text \<open>
  The check of a two-dimensional array, written out twice in the source (for \<open>h\<close> with
  \<open>MAX_D\<close> and ``defenders'', for \<open>g\<close> with \<open>MAX_M\<close> and ``attackers'').
\<close>

definition validateMatrix :: "json option \<Rightarrow> string \<Rightarrow> nat \<Rightarrow> string \<Rightarrow> ValidationResult" where
  "validateMatrix v name maxRows players =
     (case v of
        Some (JArray rows) \<Rightarrow>
          if maxRows < length rows then Invalid (Text (name @ '' exceeds maximum of 20 '' @ players))
          else firstInvalid (map (\<lambda>row. validateArray (Some row) (name @ '' row'') MAX_N) rows)
      | other \<Rightarrow> Invalid (Text (name @ '' must be a 2D array'')))"

text \<open>The membership test \<open>[...].includes(v as string)\<close>: only a string that is listed passes.\<close>

definition isIncluded :: "string list \<Rightarrow> json option \<Rightarrow> bool" where
  "isIncluded names v = (case v of Some (JString s) \<Rightarrow> s \<in> set names | other \<Rightarrow> False)"

definition validateEquilibriumParams :: "json \<Rightarrow> ValidationResult" where
  "validateEquilibriumParams body =
     (if \<not> isObject body then Invalid (Text ''Request body must be an object'')
      else case firstInvalid
               [validateNumber (field body ''N'') ''N'' 1 (real MAX_N),
                validateNumber (field body ''D'') ''D'' 1 (real MAX_D),
                validateNumber (field body ''M'') ''M'' 1 (real MAX_M),
                validateNumber (field body ''sigma2'') ''sigma2'' 0.0001 MAX_POWER,
                validateNumber (field body ''tau'') ''tau'' 0 MAX_POWER,
                validateNumber (field body ''alpha'') ''alpha'' 0.01 1,
                validateNumber (field body ''maxIter'') ''maxIter'' 1 (real MAX_ITER),
                validateNumber (field body ''epsilon'') ''epsilon'' 0.0000001 1,
                validateNumber (field body ''topK'') ''topK'' 1 (real MAX_N)] of
        Invalid m \<Rightarrow> Invalid m
      | Valid \<Rightarrow>
      (case validateArray (field body ''PT'') ''PT'' MAX_D of
        Invalid m \<Rightarrow> Invalid m
      | Valid \<Rightarrow>
      (case validateArray (field body ''PJ'') ''PJ'' MAX_M of
        Invalid m \<Rightarrow> Invalid m
      | Valid \<Rightarrow>
      (case validateMatrix (field body ''h'') ''h'' MAX_D ''defenders'' of
        Invalid m \<Rightarrow> Invalid m
      | Valid \<Rightarrow>
      (case validateMatrix (field body ''g'') ''g'' MAX_M ''attackers'' of
        Invalid m \<Rightarrow> Invalid m
      | Valid \<Rightarrow>
      (case validateArray (field body ''channelConfig'') ''channelConfig'' MAX_N of
        Invalid m \<Rightarrow> Invalid m
      | Valid \<Rightarrow>
        if \<not> isIncluded [''J1_uniform'', ''J2_topK'', ''J3_optimization''] (field body ''jammerStrategy'')
        then Invalid (Text ''jammerStrategy must be J1_uniform, J2_topK, or J3_optimization'')
        else if \<not> isIncluded [''deception'', ''oracle''] (field body ''jammerObjective'')
        then Invalid (Text ''jammerObjective must be deception or oracle'')
        else if \<not> isIncluded [''coordinated'', ''independent''] (field body ''attackerMode'')
        then Invalid (Text ''attackerMode must be coordinated or independent'')
        else Valid))))))"

text \<open>
  The \<open>equilibrium\<close> branch of the request handler.  \<open>body as EquilibriumParams\<close> is a
  compile-time cast, so the engine is handed the very same data; \<open>typed\<close> is the body read at
  the type \<open>EquilibriumParams\<close>.  A validation failure answers 400 with the validator's
  message, an exception thrown by the engine answers 400 with a generic message, and a result
  is returned with status 200.
\<close>

datatype response = BadRequest message | Ok EquilibriumResult

definition serveEquilibrium :: "json \<Rightarrow> EquilibriumParams \<Rightarrow> (nat \<Rightarrow> real) \<Rightarrow> response" where
  "serveEquilibrium body typed rnd =
     (case validateEquilibriumParams body of
        Invalid m \<Rightarrow> BadRequest m
      | Valid \<Rightarrow>
          (case runEquilibrium typed rnd of
             Inl e \<Rightarrow> BadRequest (Text ''Simulation failed. Please check your input parameters.'')
           | Inr res \<Rightarrow> Ok res))"

text \<open>A request whose only defender has the budget \<open>PT = [-2]\<close>, and the same data typed.\<close>

definition negativeBudgetBody :: json where
  "negativeBudgetBody =
     JObject [(''N'', JNumber 1), (''D'', JNumber 1), (''M'', JNumber 1),
              (''PT'', JArray [JNumber (- 2)]), (''PJ'', JArray [JNumber 10]),
              (''sigma2'', JNumber 1), (''tau'', JNumber (1 / 5)),
              (''h'', JArray [JArray [JNumber 1]]), (''g'', JArray [JArray [JNumber 1]]),
              (''alpha'', JNumber (3 / 10)), (''maxIter'', JNumber 1), (''epsilon'', JNumber (1 / 1000)),
              (''channelConfig'', JArray [JObject [(''type'', JString ''real''), (''owner'', JNumber 0)]]),
              (''jammerStrategy'', JString ''J1_uniform''), (''jammerObjective'', JString ''deception''),
              (''attackerMode'', JString ''coordinated''), (''topK'', JNumber 1),
              (''randomInit'', JBool False)]"

definition negativeBudget :: EquilibriumParams where
  "negativeBudget = oneChannel TReal (- 2) (1 / 5)"

text \<open>
  One defender with two real channels and one decoy, an oracle attacker and \<open>topK = 2\<close>; used
  with the defender allocation \<open>[[2, 2, 1]]\<close>, under which all three channels are active.
\<close>

definition oracleThree :: EquilibriumParams where
  "oracleThree =
     \<lparr> N = 3, D = 1, M = 1, PT = [5], PJ = [10], sigma2 = 1, tau = 1 / 5,
       h = [[1, 1, 1]], g = [[1, 1, 1]], alpha = 3 / 10, maxIter = 1, epsilon = 1 / 1000,
       channelConfig = [\<lparr> type = TReal, owner = 0 \<rparr>, \<lparr> type = TReal, owner = 0 \<rparr>,
                        \<lparr> type = TDecoy, owner = 0 \<rparr>],
       jammerStrategy = J2_topK, jammerObjective = Oracle, attackerMode = Coordinated,
       topK = 2, randomInit = False \<rparr>"

section \<open>States at the end of each iteration\<close>

text \<open>
  \<open>stateAfter p s0 k\<close> is the loop state at the end of iteration \<open>k\<close> when the loop is started in
  \<open>s0\<close> (\<open>k = 0\<close> is \<open>s0\<close> itself): the loop body run \<open>k\<close> times.  The loop stops at one of these
  states.
\<close>

fun stateAfter :: "EquilibriumParams \<Rightarrow> LoopState \<Rightarrow> nat \<Rightarrow> error + LoopState" where
  "stateAfter p s0 0 = Inr s0"
| "stateAfter p s0 (Suc k) =
     (case stateAfter p s0 k of Inl e \<Rightarrow> Inl e | Inr s \<Rightarrow> iterate p k s)"

text \<open>A matrix with \<open>k\<close> rows of \<open>n\<close> entries each, and a matrix without negative entries.\<close>

definition shaped :: "nat \<Rightarrow> nat \<Rightarrow> real list list \<Rightarrow> bool" where
  "shaped k n rows = (length rows = k \<and> list_all (\<lambda>row. length row = n) rows)"

definition nonneg :: "real list list \<Rightarrow> bool" where
  "nonneg rows = list_all (list_all (\<lambda>v. 0 \<le> v)) rows"

text \<open>
  The state invariant of the loop: \<open>x\<close> has \<open>D\<close> rows and \<open>y\<close> has \<open>M\<close> rows, every row has \<open>N\<close>
  entries, and no entry is negative.
\<close>

definition stateOk :: "EquilibriumParams \<Rightarrow> LoopState \<Rightarrow> bool" where
  "stateOk p s =
     (shaped (D p) (N p) (st_x s) \<and> nonneg (st_x s) \<and> shaped (M p) (N p) (st_y s) \<and> nonneg (st_y s))"

text \<open>A defender with budget zero on a real channel.\<close>

definition zeroBudget :: EquilibriumParams where
  "zeroBudget = oneChannel TReal 0 (1 / 5)"

text \<open>
  A valid parameter object that selects the gradient strategy: one real channel with budget 10,
  active from the start.  \<open>gradientBody\<close> is the request that carries it.
\<close>

definition gradientSeed :: EquilibriumParams where
  "gradientSeed = (oneChannel TReal 10 (1 / 5))\<lparr> jammerStrategy := J3_optimization \<rparr>"

definition gradientBody :: json where
  "gradientBody =
     JObject [(''N'', JNumber 1), (''D'', JNumber 1), (''M'', JNumber 1),
              (''PT'', JArray [JNumber 10]), (''PJ'', JArray [JNumber 10]),
              (''sigma2'', JNumber 1), (''tau'', JNumber (1 / 5)),
              (''h'', JArray [JArray [JNumber 1]]), (''g'', JArray [JArray [JNumber 1]]),
              (''alpha'', JNumber (3 / 10)), (''maxIter'', JNumber 1), (''epsilon'', JNumber (1 / 1000)),
              (''channelConfig'', JArray [JObject [(''type'', JString ''real''), (''owner'', JNumber 0)]]),
              (''jammerStrategy'', JString ''J3_optimization''), (''jammerObjective'', JString ''deception''),
              (''attackerMode'', JString ''coordinated''), (''topK'', JNumber 1),
              (''randomInit'', JBool False)]"

text \<open>
  Valid parameter objects with random initialisation, one with budget 10 and one with budget 0,
  and a seed whose first draw is zero.
\<close>

definition zeroDraw :: EquilibriumParams where
  "zeroDraw = (oneChannel TReal 10 (1 / 5))\<lparr> randomInit := True \<rparr>"

definition zeroDrawNoBudget :: EquilibriumParams where
  "zeroDrawNoBudget = (oneChannel TReal 0 (1 / 5))\<lparr> randomInit := True \<rparr>"

definition unluckySeed :: nat where
  "unluckySeed = 111692635"

section \<open>Properties of the projection\<close>

lemma projectToSimplex_length: "length (projectToSimplex v b) = length v"
  by (simp add: projectToSimplex_def Let_def)

lemma sum_list_map_max0_nonneg: "0 \<le> sum_list (map (\<lambda>v. max 0 v) (v :: real list))"
  by (induction v) auto

lemma map_max0_id: "list_all (\<lambda>e. 0 \<le> e) v \<Longrightarrow> map (\<lambda>e. max 0 e) v = (v :: real list)"
  by (induction v) auto

text \<open>
  Claim C8 (projection idempotence).  For every non-empty vector \<open>v\<close> with non-negative entries
  whose entries sum to the budget \<open>b\<close>, \<open>projectToSimplex v b\<close> is \<open>v\<close> itself.  This covers the
  degenerate case \<open>b = 0\<close>, where \<open>v\<close> is all zeros and the uniform fallback branch is taken.
\<close>

theorem projectToSimplex_idempotent:
  assumes "v \<noteq> []" and "list_all (\<lambda>e. 0 \<le> e) v" and "sum_list v = b"
  shows "projectToSimplex v b = v"
proof (cases "b \<le> 0")
  case True
  have nn: "\<forall>e\<in>set v. 0 \<le> e" using assms(2) by (simp add: list_all_iff)
  have "sum_list v = 0" using True assms(3) sum_list_nonneg[of v] nn by force
  then have z: "\<forall>e\<in>set v. e = 0" using nn by (simp add: sum_list_nonneg_eq_0_iff)
  have b0: "b = 0" using \<open>sum_list v = 0\<close> assms(3) by simp
  have "map (\<lambda>_. 0) v = v" using z by (induction v) auto
  then show ?thesis
    using True b0 by (simp add: projectToSimplex_def Let_def map_max0_id[OF assms(2)] assms(3))
next
  case False
  then have pos: "0 < b" by simp
  have "map (\<lambda>e. e / b * b) v = v" using pos by (induction v) auto
  then show ?thesis
    using False by (simp add: projectToSimplex_def Let_def map_max0_id[OF assms(2)] assms(3))
qed

theorem projectToSimplex_idempotent_witness:
  "[2, 0, 3 :: real] \<noteq> [] \<and> list_all (\<lambda>e. 0 \<le> e) [2, 0, 3 :: real] \<and> sum_list [2, 0, 3 :: real] = 5
   \<and> projectToSimplex [2, 0, 3] 5 = [2, 0, 3]
   \<and> projectToSimplex [0, 0] 0 = [0, 0]"
proof -
  have a: "projectToSimplex [2, 0, 3] 5 = [2, 0, 3]"
    by (rule projectToSimplex_idempotent) simp_all
  have b: "projectToSimplex [0, 0] 0 = [0, 0]"
    by (rule projectToSimplex_idempotent) simp_all
  show ?thesis using a b by simp
qed

section \<open>Evaluating the loop\<close>

declare runLoop.simps [simp del]

lemma runLoop_stop: "\<not> it < maxIter p \<Longrightarrow> runLoop p it s = Inr s"
  by (subst runLoop.simps) simp

lemma runLoop_step:
  "it < maxIter p \<Longrightarrow> iterate p it s = Inr s' \<Longrightarrow>
   runLoop p it s = (if belowEpsilon (st_maxChange s') (epsilon p) then Inr (s'\<lparr> st_converged := True \<rparr>)
                     else runLoop p (Suc it) s')"
  by (subst runLoop.simps) simp

lemma runLoop_error: "it < maxIter p \<Longrightarrow> iterate p it s = Inl e \<Longrightarrow> runLoop p it s = Inl e"
  by (subst runLoop.simps) simp

lemmas engine_defs = iterate_def initialState_def updateDefender_def updateAttacker_def candidate_def
  getActiveSet_def ownerPower_def applyJammerStrategy_def defenderGradient_def projectToSimplex_def
  damp_def deltasOf_def maxInto_def stepSize_def totalInterference_def initDefender_def
  ownedChannels_def initDecoys_def initAttackers_def randomWeights_def

lemmas example_defs = oneChannel_def decoyOnly_def belowThreshold_def twoDefenders_def

subsection \<open>The run of \<open>decoyOnly\<close>\<close>

lemma decoyOnly_init:
  "initDefenders decoyOnly halfRandom 0 [0..<D decoyOnly] = [[1 / 5]]"
  "initAttackers decoyOnly [[1 / 5]] = Inr [[10]]"
  by (simp_all add: example_defs engine_defs)

lemma decoyOnly_iterate:
  "\<exists>hs. iterate decoyOnly 0 (initialState [[1 / 5]] [[10]]) =
     Inr \<lparr> st_x = [[157 / 50]], st_y = [[10]], st_converged = False, st_iterations = 1,
           st_maxChange = Finite (147 / 50), st_history = hs \<rparr>"
  by (simp add: example_defs engine_defs Let_def)

lemma decoyOnly_run:
  "\<exists>hs. runEquilibrium decoyOnly halfRandom =
     Inr (buildResult decoyOnly
           \<lparr> st_x = [[157 / 50]], st_y = [[10]], st_converged = False, st_iterations = 1,
             st_maxChange = Finite (147 / 50), st_history = hs \<rparr>)"
proof -
  obtain hs where it: "iterate decoyOnly 0 (initialState [[1 / 5]] [[10]]) =
     Inr \<lparr> st_x = [[157 / 50]], st_y = [[10]], st_converged = False, st_iterations = 1,
           st_maxChange = Finite (147 / 50), st_history = hs \<rparr>"
    using decoyOnly_iterate by blast
  have m: "maxIter decoyOnly = 1" "epsilon decoyOnly = 1 / 1000"
    by (simp_all add: example_defs)
  have "runLoop decoyOnly 0 (initialState [[1 / 5]] [[10]]) =
     Inr \<lparr> st_x = [[157 / 50]], st_y = [[10]], st_converged = False, st_iterations = 1,
           st_maxChange = Finite (147 / 50), st_history = hs \<rparr>"
    by (simp add: runLoop_step[OF _ it] runLoop_stop m)
  then show ?thesis
    by (auto simp: runEquilibrium_def decoyOnly_init)
qed

subsection \<open>The run of \<open>belowThreshold\<close>\<close>

lemma belowThreshold_init:
  "initDefenders belowThreshold halfRandom 0 [0..<D belowThreshold] = [[1]]"
  "initAttackers belowThreshold [[1]] = Inr [[0]]"
  by (simp_all add: example_defs engine_defs)

lemma belowThreshold_iterate:
  "\<exists>hs. iterate belowThreshold 0 (initialState [[1]] [[0]]) =
     Inr \<lparr> st_x = [[1]], st_y = [[0]], st_converged = False, st_iterations = 1,
           st_maxChange = Finite 0, st_history = hs \<rparr>"
  by (simp add: example_defs engine_defs Let_def)

lemma belowThreshold_run:
  "\<exists>hs. runEquilibrium belowThreshold halfRandom =
     Inr (buildResult belowThreshold
           \<lparr> st_x = [[1]], st_y = [[0]], st_converged = True, st_iterations = 1,
             st_maxChange = Finite 0, st_history = hs \<rparr>)"
proof -
  obtain hs where it: "iterate belowThreshold 0 (initialState [[1]] [[0]]) =
     Inr \<lparr> st_x = [[1]], st_y = [[0]], st_converged = False, st_iterations = 1,
           st_maxChange = Finite 0, st_history = hs \<rparr>"
    using belowThreshold_iterate by blast
  have m: "maxIter belowThreshold = 1" "epsilon belowThreshold = 1 / 1000"
    by (simp_all add: example_defs)
  have "runLoop belowThreshold 0 (initialState [[1]] [[0]]) =
     Inr \<lparr> st_x = [[1]], st_y = [[0]], st_converged = True, st_iterations = 1,
           st_maxChange = Finite 0, st_history = hs \<rparr>"
    by (simp add: runLoop_step[OF _ it] m)
  then show ?thesis
    by (auto simp: runEquilibrium_def belowThreshold_init)
qed

subsection \<open>The run of \<open>twoDefenders\<close>\<close>




section \<open>Attacker utility\<close>

text \<open>
  Claim C2.  The attacker utility is the negated sum of the defender utilities; under the
  deception objective that sum is claimed to range over the active channels only.  In the run
  of \<open>belowThreshold\<close> the initial state is \<open>x = [[1]]\<close>, \<open>y = [[0]]\<close> and the active set is empty
  (the power 1 is below the threshold 2), yet the attacker utility is \<open>- ln 2\<close>, not zero: the
  inactive channel contributes, because \<open>calculateDefenderUtility\<close> never reads the active set.
\<close>

theorem attacker_utility_counts_inactive_channel:
  "initDefenders belowThreshold halfRandom 0 [0..<D belowThreshold] = [[1]]
   \<and> initAttackers belowThreshold [[1]] = Inr [[0]]
   \<and> jammerObjective belowThreshold = Deception
   \<and> getActiveSet [[1]] belowThreshold = []
   \<and> calculateAttackerUtility 0 [[1]] [[0]] belowThreshold (getActiveSet [[1]] belowThreshold) = - ln 2
   \<and> calculateAttackerUtility 0 [[1]] [[0]] belowThreshold (getActiveSet [[1]] belowThreshold) \<noteq> 0"
proof -
  have a: "getActiveSet [[1]] belowThreshold = []"
    by (simp add: example_defs getActiveSet_def ownerPower_def)
  have b: "calculateAttackerUtility 0 [[1]] [[0]] belowThreshold [] = - ln 2"
    by (simp add: example_defs calculateAttackerUtility_def calculateDefenderUtility_def
        totalInterference_def)
  have c: "ln (2 :: real) \<noteq> 0"
    by simp
  have d: "jammerObjective belowThreshold = Deception"
    by (simp add: example_defs)
  show ?thesis
    using a b c d belowThreshold_init by simp
qed

section \<open>The symmetric-equilibrium flag\<close>

lemma buildResult_defenders:
  "length (defenders (buildResult p s)) = D p"
  "d < D p \<Longrightarrow> allocation (defenders (buildResult p s) ! d) = st_x s ! d"
  by (simp_all add: buildResult_def Let_def)

lemma buildResult_attackers:
  "length (attackers (buildResult p s)) = M p"
  "m < M p \<Longrightarrow> allocation (attackers (buildResult p s) ! m) = st_y s ! m"
  by (simp_all add: buildResult_def Let_def)






section \<open>The loop never throws once the attackers are seeded\<close>

lemma collect_length: "collect vs = Inr rs \<Longrightarrow> length rs = length vs"
proof (induction vs arbitrary: rs)
  case Nil
  then show ?case by simp
next
  case (Cons v vs)
  then show ?case
    by (cases v) (auto split: sum.splits)
qed


lemma collect_ok:
  "(\<And>v. v \<in> set vs \<Longrightarrow> \<exists>r. v = Inr r) \<Longrightarrow> \<exists>rs. collect vs = Inr rs"
proof (induction vs)
  case Nil
  then show ?case by simp
next
  case (Cons v vs)
  obtain r where "v = Inr r" using Cons.prems[of v] by auto
  moreover obtain rs where "collect vs = Inr rs" using Cons by auto
  ultimately show ?case by simp
qed

lemma attackerGradient_ok:
  assumes "M p \<le> length y"
  shows "\<exists>gr. attackerGradient m x y p a = Inr gr \<and> length gr = N p"
proof -
  have "\<exists>rs. collect (map (attackerGradientAt m x y p a) [0..<N p]) = Inr rs"
    using assms by (intro collect_ok) (auto simp: attackerGradientAt_def Let_def)
  then show ?thesis
    using collect_length by (fastforce simp: attackerGradient_def)
qed

lemma applyJammerStrategy_ok:
  assumes "M p \<le> length y"
  shows "\<exists>r. applyJammerStrategy m y x p a = Inr r"
proof -
  obtain gr where "attackerGradient m x y p a = Inr gr"
    using attackerGradient_ok[OF assms] by blast
  then show ?thesis
    by (cases "jammerStrategy p") (simp_all add: applyJammerStrategy_def Let_def)
qed

lemma candidate_ok:
  assumes "M p \<le> length y"
  shows "\<exists>r. candidate p m y x a = Inr r"
proof -
  obtain gr where "attackerGradient m x y p a = Inr gr"
    using attackerGradient_ok[OF assms] by blast
  then show ?thesis
    using applyJammerStrategy_ok[OF assms] by (simp add: candidate_def)
qed

lemma updateAttacker_ok:
  assumes "M p \<le> length (fst acc)"
  shows "\<exists>acc'. updateAttacker p yOld x a m acc = Inr acc' \<and> length (fst acc') = length (fst acc)"
proof -
  obtain y mc ad where acc: "acc = (y, mc, ad)" by (cases acc) auto
  have "M p \<le> length y" using assms acc by simp
  from candidate_ok[OF this, of m x a] obtain r where "candidate p m y x a = Inr r" by blast
  then show ?thesis
    by (simp add: updateAttacker_def acc Let_def)
qed

lemma foldErr_updateAttacker_ok:
  assumes "M p \<le> length (fst acc)"
  shows "\<exists>acc'. foldErr (updateAttacker p yOld x a) ms acc = Inr acc'
               \<and> length (fst acc') = length (fst acc)"
  using assms
proof (induction ms arbitrary: acc)
  case Nil
  then show ?case by simp
next
  case (Cons m ms)
  obtain acc1 where a1: "updateAttacker p yOld x a m acc = Inr acc1"
      and l1: "length (fst acc1) = length (fst acc)"
    using updateAttacker_ok[OF Cons.prems] by blast
  then have "M p \<le> length (fst acc1)" using Cons.prems by simp
  from Cons.IH[OF this] show ?case
    using a1 l1 by auto
qed

lemma iterate_ok:
  assumes "M p \<le> length (st_y s)"
  shows "\<exists>s'. iterate p it s = Inr s' \<and> length (st_y s') = length (st_y s)"
proof -
  obtain x1 mc1 dd where f: "fold (updateDefender p (st_x s) (st_y s)) [0..<D p] (st_x s, 0, []) = (x1, mc1, dd)"
    by (metis prod_cases3)
  obtain acc' where a: "foldErr (updateAttacker p (st_y s) x1 (getActiveSet x1 p)) [0..<M p] (st_y s, mc1, []) = Inr acc'"
      and l: "length (fst acc') = length (st_y s)"
    using foldErr_updateAttacker_ok[of p "(st_y s, mc1, [])" "st_y s" x1 "getActiveSet x1 p" "[0..<M p]"]
      assms by auto
  obtain y1 mc2 ad where acc': "acc' = (y1, mc2, ad)" by (cases acc') auto
  show ?thesis
    using l by (simp add: iterate_def f a acc' Let_def)
qed

lemma runLoop_ok:
  "M p \<le> length (st_y s) \<Longrightarrow> \<exists>s'. runLoop p it s = Inr s'"
proof (induction p it s rule: runLoop.induct)
  case (1 p it s)
  show ?case
  proof (cases "it < maxIter p")
    case False
    then show ?thesis by (simp add: runLoop_stop)
  next
    case True
    obtain s1 where it: "iterate p it s = Inr s1" and l: "length (st_y s1) = length (st_y s)"
      using iterate_ok[OF "1.prems"] by blast
    show ?thesis
    proof (cases "belowEpsilon (st_maxChange s1) (epsilon p)")
      case True
      then show ?thesis using runLoop_step[OF \<open>it < maxIter p\<close> it] by simp
    next
      case False
      have "\<exists>s'. runLoop p (Suc it) s1 = Inr s'"
        using "1.IH"[OF \<open>it < maxIter p\<close> it False] l "1.prems" by simp
      then show ?thesis using runLoop_step[OF \<open>it < maxIter p\<close> it] False by simp
    qed
  qed
qed

lemma initAttackers_length: "initAttackers p x = Inr y0 \<Longrightarrow> length y0 = M p"
  using collect_length by (fastforce simp: initAttackers_def Let_def)

lemma runEquilibrium_returns:
  assumes "initAttackers p (initDefenders p rnd 0 [0..<D p]) = Inr y0"
  obtains s where "runLoop p 0 (initialState (initDefenders p rnd 0 [0..<D p]) y0) = Inr s"
    and "runEquilibrium p rnd = Inr (buildResult p s)"
proof -
  have "M p \<le> length (st_y (initialState (initDefenders p rnd 0 [0..<D p]) y0))"
    using initAttackers_length[OF assms] by (simp add: initialState_def)
  then obtain s where s: "runLoop p 0 (initialState (initDefenders p rnd 0 [0..<D p]) y0) = Inr s"
    using runLoop_ok by blast
  then have "runEquilibrium p rnd = Inr (buildResult p s)"
    using assms by (simp add: runEquilibrium_def Let_def)
  then show ?thesis using s that by blast
qed

section \<open>Bookkeeping of the loop\<close>

lemma iterate_fields:
  assumes "iterate p it s = Inr s'"
  shows "st_iterations s' = it + 1" and "st_converged s' = st_converged s"
    and "\<exists>e. st_history s' = st_history s @ [e] \<and> iter e = it + 1
             \<and> st_maxChange s' = Finite (ConvergenceEntry.maxChange e)"
  using assms by (auto simp: iterate_def Let_def split: prod.splits sum.splits)

lemma runLoop_bookkeeping:
  assumes "runLoop p it s = Inr s'" and "it \<le> maxIter p"
    and "st_iterations s = it" and "length (st_history s) = it" and "\<not> st_converged s"
    and "\<forall>e\<in>set (st_history s). \<not> ConvergenceEntry.maxChange e < epsilon p"
    and "\<forall>k<it. iter (st_history s ! k) = k + 1"
    and "0 < it \<longrightarrow> st_maxChange s = Finite (ConvergenceEntry.maxChange (last (st_history s)))"
  shows "st_iterations s' = length (st_history s') \<and> st_iterations s' \<le> maxIter p
       \<and> it \<le> st_iterations s'
       \<and> (\<forall>k<length (st_history s'). iter (st_history s' ! k) = k + 1)
       \<and> (0 < st_iterations s' \<longrightarrow>
            st_maxChange s' = Finite (ConvergenceEntry.maxChange (last (st_history s'))))
       \<and> (st_converged s' = (\<exists>e\<in>set (st_history s'). ConvergenceEntry.maxChange e < epsilon p))
       \<and> (\<not> st_converged s' \<longrightarrow> st_iterations s' = maxIter p)"
  using assms
proof (induction p it s rule: runLoop.induct)
  case (1 p it s)
  show ?case
  proof (cases "it < maxIter p")
    case False
    then have "s' = s" using "1.prems"(1) by (simp add: runLoop_stop)
    then show ?thesis using False "1.prems" by auto
  next
    case True
    obtain s1 where it1: "iterate p it s = Inr s1"
      using "1.prems"(1) True by (cases "iterate p it s") (simp_all add: runLoop_error)
    obtain e where e: "st_history s1 = st_history s @ [e]" "iter e = it + 1"
        "st_maxChange s1 = Finite (ConvergenceEntry.maxChange e)"
      using iterate_fields(3)[OF it1] by blast
    have f1: "st_iterations s1 = it + 1" "st_converged s1 = st_converged s"
      using iterate_fields[OF it1] by simp_all
    have idx: "\<forall>k<Suc it. iter (st_history s1 ! k) = k + 1"
      using "1.prems"(4,7) e by (auto simp: nth_append less_Suc_eq)
    show ?thesis
    proof (cases "ConvergenceEntry.maxChange e < epsilon p")
      case True
      then have "s' = s1\<lparr>st_converged := True\<rparr>"
        using "1.prems"(1) runLoop_step[OF \<open>it < maxIter p\<close> it1] e by simp
      then show ?thesis
        using True e f1 idx "1.prems" \<open>it < maxIter p\<close> by auto
    next
      case False
      then have nb: "\<not> belowEpsilon (st_maxChange s1) (epsilon p)" using e by simp
      then have r: "runLoop p (Suc it) s1 = Inr s'"
        using "1.prems"(1) runLoop_step[OF \<open>it < maxIter p\<close> it1] by simp
      have "st_iterations s' = length (st_history s') \<and> st_iterations s' \<le> maxIter p
       \<and> Suc it \<le> st_iterations s'
       \<and> (\<forall>k<length (st_history s'). iter (st_history s' ! k) = k + 1)
       \<and> (0 < st_iterations s' \<longrightarrow>
            st_maxChange s' = Finite (ConvergenceEntry.maxChange (last (st_history s'))))
       \<and> (st_converged s' = (\<exists>e\<in>set (st_history s'). ConvergenceEntry.maxChange e < epsilon p))
       \<and> (\<not> st_converged s' \<longrightarrow> st_iterations s' = maxIter p)"
      proof (rule "1.IH"[OF \<open>it < maxIter p\<close> it1 nb r])
        show "Suc it \<le> maxIter p" using \<open>it < maxIter p\<close> by simp
        show "st_iterations s1 = Suc it" using f1 by simp
        show "length (st_history s1) = Suc it" using e "1.prems"(4) by simp
        show "\<not> st_converged s1" using f1 "1.prems"(5) by simp
        show "\<forall>e\<in>set (st_history s1). \<not> ConvergenceEntry.maxChange e < epsilon p"
          using e False "1.prems"(6) by auto
        show "\<forall>k<Suc it. iter (st_history s1 ! k) = k + 1" using idx .
        show "0 < Suc it \<longrightarrow> st_maxChange s1 = Finite (ConvergenceEntry.maxChange (last (st_history s1)))"
          using e by simp
      qed
      then show ?thesis by auto
    qed
  qed
qed

lemma run_bookkeeping:
  assumes "runLoop p 0 (initialState x0 y0) = Inr s"
  shows "st_iterations s = length (st_history s) \<and> st_iterations s \<le> maxIter p
       \<and> (\<forall>k<length (st_history s). iter (st_history s ! k) = k + 1)
       \<and> (0 < st_iterations s \<longrightarrow>
            st_maxChange s = Finite (ConvergenceEntry.maxChange (last (st_history s))))
       \<and> (st_converged s = (\<exists>e\<in>set (st_history s). ConvergenceEntry.maxChange e < epsilon p))
       \<and> (\<not> st_converged s \<longrightarrow> st_iterations s = maxIter p)"
  using runLoop_bookkeeping[OF assms] by (auto simp: initialState_def)

lemma runLoop_progress:
  assumes "runLoop p it s = Inr s'" and "it < maxIter p" and "st_iterations s = it"
  shows "it < st_iterations s'"
proof -
  obtain s1 where it1: "iterate p it s = Inr s1"
    using assms(1,2) by (cases "iterate p it s") (simp_all add: runLoop_error)
  have f1: "st_iterations s1 = it + 1" using iterate_fields[OF it1] by simp
  show ?thesis
  proof (cases "belowEpsilon (st_maxChange s1) (epsilon p)")
    case True
    then have "s' = s1\<lparr>st_converged := True\<rparr>"
      using assms(1) runLoop_step[OF assms(2) it1] by simp
    then show ?thesis using f1 by simp
  next
    case False
    then have r: "runLoop p (Suc it) s1 = Inr s'"
      using assms(1) runLoop_step[OF assms(2) it1] by simp
    have "\<And>q j t t'. runLoop q j t = Inr t' \<Longrightarrow> st_iterations t = j \<Longrightarrow> j \<le> st_iterations t'"
    proof -
      fix q j t t' show "runLoop q j t = Inr t' \<Longrightarrow> st_iterations t = j \<Longrightarrow> j \<le> st_iterations t'"
      proof (induction q j t rule: runLoop.induct)
        case (1 q j t)
        show ?case
        proof (cases "j < maxIter q")
          case False
          then show ?thesis using "1.prems" by (simp add: runLoop_stop)
        next
          case True
          obtain t1 where j1: "iterate q j t = Inr t1"
            using "1.prems"(1) True by (cases "iterate q j t") (simp_all add: runLoop_error)
          have g1: "st_iterations t1 = j + 1" using iterate_fields[OF j1] by simp
          show ?thesis
          proof (cases "belowEpsilon (st_maxChange t1) (epsilon q)")
            case True
            then have "t' = t1\<lparr>st_converged := True\<rparr>"
              using "1.prems"(1) runLoop_step[OF \<open>j < maxIter q\<close> j1] by simp
            then show ?thesis using g1 by simp
          next
            case False
            then have "runLoop q (Suc j) t1 = Inr t'"
              using "1.prems"(1) runLoop_step[OF \<open>j < maxIter q\<close> j1] by simp
            from "1.IH"[OF \<open>j < maxIter q\<close> j1 False this] g1 show ?thesis by simp
          qed
        qed
      qed
    qed
    from this[OF r] f1 show ?thesis by simp
  qed
qed

section \<open>Convergence flag and history\<close>

lemma buildResult_fields:
  "converged (buildResult p s) = st_converged s"
  "iterations (buildResult p s) = st_iterations s"
  "maxChange (buildResult p s) = st_maxChange s"
  "convergenceHistory (buildResult p s) = st_history s"
  "length (channelSummary (buildResult p s)) = N p"
  by (simp_all add: buildResult_def Let_def)

lemma example_wellFormed:
  "wellFormed decoyOnly" "wellFormed belowThreshold" "wellFormed twoDefenders"
  by (simp_all add: wellFormed_def example_defs)

text \<open>
  Runs whose seeding does not throw.  Whenever the attackers can be seeded, the run returns a
  result in which
  \<open>converged\<close> is true exactly when some recorded \<open>maxChange\<close> is below \<open>epsilon\<close>; a converged
  run has \<open>iterations \<le> maxIter\<close>; and when no recorded \<open>maxChange\<close> is below \<open>epsilon\<close> the loop
  has run exactly \<open>maxIter\<close> iterations and the result is fully populated (one history entry per
  iteration, \<open>D\<close> defender rows, \<open>M\<close> attacker rows, \<open>N\<close> channel-summary rows) with
  \<open>converged = false\<close>.
\<close>

theorem converged_flag:
  assumes "wellFormed p"
    and "initAttackers p (initDefenders p rnd 0 [0..<D p]) = Inr y0"
  shows "\<exists>res. runEquilibrium p rnd = Inr res
     \<and> (converged res = (\<exists>e\<in>set (convergenceHistory res). ConvergenceEntry.maxChange e < epsilon p))
     \<and> (converged res \<longrightarrow> iterations res \<le> maxIter p)
     \<and> ((\<forall>e\<in>set (convergenceHistory res). \<not> ConvergenceEntry.maxChange e < epsilon p) \<longrightarrow>
           \<not> converged res \<and> iterations res = maxIter p
           \<and> length (convergenceHistory res) = maxIter p
           \<and> length (defenders res) = D p \<and> length (attackers res) = M p
           \<and> length (channelSummary res) = N p)"
proof -
  obtain s where loop: "runLoop p 0 (initialState (initDefenders p rnd 0 [0..<D p]) y0) = Inr s"
    and run: "runEquilibrium p rnd = Inr (buildResult p s)"
    using assms(2) by (rule runEquilibrium_returns)
  note bk = run_bookkeeping[OF loop]
  have "(converged (buildResult p s) =
          (\<exists>e\<in>set (convergenceHistory (buildResult p s)). ConvergenceEntry.maxChange e < epsilon p))"
    using bk by (simp add: buildResult_fields)
  moreover have "converged (buildResult p s) \<longrightarrow> iterations (buildResult p s) \<le> maxIter p"
    using bk by (simp add: buildResult_fields)
  moreover have "(\<forall>e\<in>set (convergenceHistory (buildResult p s)). \<not> ConvergenceEntry.maxChange e < epsilon p) \<longrightarrow>
           \<not> converged (buildResult p s) \<and> iterations (buildResult p s) = maxIter p
           \<and> length (convergenceHistory (buildResult p s)) = maxIter p
           \<and> length (defenders (buildResult p s)) = D p \<and> length (attackers (buildResult p s)) = M p
           \<and> length (channelSummary (buildResult p s)) = N p"
    using bk by (auto simp: buildResult_fields buildResult_defenders buildResult_attackers)
  ultimately show ?thesis
    using run by blast
qed

theorem converged_flag_witness:
  "wellFormed decoyOnly
   \<and> initAttackers decoyOnly (initDefenders decoyOnly halfRandom 0 [0..<D decoyOnly]) = Inr [[10]]
   \<and> \<not> isl (runEquilibrium decoyOnly halfRandom)
   \<and> \<not> converged (projr (runEquilibrium decoyOnly halfRandom))
   \<and> iterations (projr (runEquilibrium decoyOnly halfRandom)) = maxIter decoyOnly
   \<and> length (convergenceHistory (projr (runEquilibrium decoyOnly halfRandom))) = 1
   \<and> wellFormed belowThreshold
   \<and> initAttackers belowThreshold (initDefenders belowThreshold halfRandom 0 [0..<D belowThreshold]) = Inr [[0]]
   \<and> converged (projr (runEquilibrium belowThreshold halfRandom))
   \<and> iterations (projr (runEquilibrium belowThreshold halfRandom)) \<le> maxIter belowThreshold"
proof -
  have iA: "initAttackers decoyOnly (initDefenders decoyOnly halfRandom 0 [0..<D decoyOnly]) = Inr [[10]]"
    by (simp add: decoyOnly_init)
  have iB: "initAttackers belowThreshold (initDefenders belowThreshold halfRandom 0 [0..<D belowThreshold]) = Inr [[0]]"
    by (simp add: belowThreshold_init)
  obtain hs where runA: "runEquilibrium decoyOnly halfRandom =
     Inr (buildResult decoyOnly
           \<lparr> st_x = [[157 / 50]], st_y = [[10]], st_converged = False, st_iterations = 1,
             st_maxChange = Finite (147 / 50), st_history = hs \<rparr>)"
    using decoyOnly_run by blast
  obtain hs' where runB: "runEquilibrium belowThreshold halfRandom =
     Inr (buildResult belowThreshold
           \<lparr> st_x = [[1]], st_y = [[0]], st_converged = True, st_iterations = 1,
             st_maxChange = Finite 0, st_history = hs' \<rparr>)"
    using belowThreshold_run by blast
  have cA: "\<not> converged (projr (runEquilibrium decoyOnly halfRandom))"
    by (simp add: runA buildResult_fields)
  have A: "iterations (projr (runEquilibrium decoyOnly halfRandom)) = maxIter decoyOnly
        \<and> length (convergenceHistory (projr (runEquilibrium decoyOnly halfRandom))) = maxIter decoyOnly"
    using converged_flag[OF example_wellFormed(1) iA] cA by auto
  have B: "converged (projr (runEquilibrium belowThreshold halfRandom)) \<longrightarrow>
           iterations (projr (runEquilibrium belowThreshold halfRandom)) \<le> maxIter belowThreshold"
    using converged_flag[OF example_wellFormed(2) iB] by auto
  have cB: "converged (projr (runEquilibrium belowThreshold halfRandom))"
    by (simp add: runB buildResult_fields)
  have m: "maxIter decoyOnly = 1" by (simp add: example_defs)
  show ?thesis
    using A B cA cB iA iB example_wellFormed m by (simp add: runA)
qed

text \<open>
  Runs whose seeding does not throw, continued.  With \<open>maxIter \<ge> 1\<close>, whenever the attackers
  can be seeded the run returns a result
  whose \<open>iterations\<close> is the length of the history, whose \<open>k\<close>-th history entry carries
  \<open>iter = k + 1\<close>, whose history is not empty, and whose top-level \<open>maxChange\<close> is the
  \<open>maxChange\<close> of the last history entry.
\<close>

theorem history_bookkeeping:
  assumes "wellFormed p" and "1 \<le> maxIter p"
    and "initAttackers p (initDefenders p rnd 0 [0..<D p]) = Inr y0"
  shows "\<exists>res. runEquilibrium p rnd = Inr res
     \<and> iterations res = length (convergenceHistory res)
     \<and> (\<forall>k<length (convergenceHistory res). iter (convergenceHistory res ! k) = k + 1)
     \<and> convergenceHistory res \<noteq> []
     \<and> maxChange res = Finite (ConvergenceEntry.maxChange (last (convergenceHistory res)))"
proof -
  obtain s where loop: "runLoop p 0 (initialState (initDefenders p rnd 0 [0..<D p]) y0) = Inr s"
    and run: "runEquilibrium p rnd = Inr (buildResult p s)"
    using assms(3) by (rule runEquilibrium_returns)
  note bk = run_bookkeeping[OF loop]
  have pos: "0 < st_iterations s"
    using runLoop_progress[OF loop] assms(2) by (simp add: initialState_def)
  then have ne: "st_history s \<noteq> []" using bk by auto
  have "iterations (buildResult p s) = length (convergenceHistory (buildResult p s))"
    using bk by (simp add: buildResult_fields)
  moreover have "\<forall>k<length (convergenceHistory (buildResult p s)).
      iter (convergenceHistory (buildResult p s) ! k) = k + 1"
    using bk by (simp add: buildResult_fields)
  moreover have "convergenceHistory (buildResult p s) \<noteq> []"
    using ne by (simp add: buildResult_fields)
  moreover have "maxChange (buildResult p s) =
      Finite (ConvergenceEntry.maxChange (last (convergenceHistory (buildResult p s))))"
    using bk pos by (simp add: buildResult_fields)
  ultimately show ?thesis
    using run by blast
qed

theorem history_bookkeeping_witness:
  "wellFormed decoyOnly \<and> 1 \<le> maxIter decoyOnly
   \<and> initAttackers decoyOnly (initDefenders decoyOnly halfRandom 0 [0..<D decoyOnly]) = Inr [[10]]
   \<and> \<not> isl (runEquilibrium decoyOnly halfRandom)
   \<and> iterations (projr (runEquilibrium decoyOnly halfRandom)) = 1
   \<and> length (convergenceHistory (projr (runEquilibrium decoyOnly halfRandom))) = 1
   \<and> iter (convergenceHistory (projr (runEquilibrium decoyOnly halfRandom)) ! 0) = 1
   \<and> maxChange (projr (runEquilibrium decoyOnly halfRandom)) = Finite (147 / 50)
   \<and> ConvergenceEntry.maxChange (last (convergenceHistory (projr (runEquilibrium decoyOnly halfRandom))))
       = 147 / 50"
proof -
  have iA: "initAttackers decoyOnly (initDefenders decoyOnly halfRandom 0 [0..<D decoyOnly]) = Inr [[10]]"
    by (simp add: decoyOnly_init)
  have m: "1 \<le> maxIter decoyOnly" by (simp add: example_defs)
  obtain hs where runA: "runEquilibrium decoyOnly halfRandom =
     Inr (buildResult decoyOnly
           \<lparr> st_x = [[157 / 50]], st_y = [[10]], st_converged = False, st_iterations = 1,
             st_maxChange = Finite (147 / 50), st_history = hs \<rparr>)"
    using decoyOnly_run by blast
  have its: "iterations (projr (runEquilibrium decoyOnly halfRandom)) = 1"
    and mc: "maxChange (projr (runEquilibrium decoyOnly halfRandom)) = Finite (147 / 50)"
    by (simp_all add: runA buildResult_fields)
  have "length (convergenceHistory (projr (runEquilibrium decoyOnly halfRandom))) = 1
     \<and> iter (convergenceHistory (projr (runEquilibrium decoyOnly halfRandom)) ! 0) = 1
     \<and> ConvergenceEntry.maxChange (last (convergenceHistory (projr (runEquilibrium decoyOnly halfRandom))))
         = 147 / 50"
    using history_bookkeeping[OF example_wellFormed(1) m iA] its mc by auto
  then show ?thesis
    using iA m its mc example_wellFormed(1) by (simp add: runA)
qed

section \<open>Validation of power budgets\<close>

lemma negativeBudget_init:
  "initDefenders negativeBudget halfRandom 0 [0..<D negativeBudget] = [[- 2]]"
  "initAttackers negativeBudget [[- 2]] = Inr [[0]]"
  by (simp_all add: negativeBudget_def example_defs engine_defs)

lemma negativeBudget_iterate:
  "\<exists>hs. iterate negativeBudget 0 (initialState [[- 2]] [[0]]) =
     Inr \<lparr> st_x = [[- 2]], st_y = [[0]], st_converged = False, st_iterations = 1,
           st_maxChange = Finite 0, st_history = hs \<rparr>"
  by (simp add: negativeBudget_def example_defs engine_defs Let_def)

lemma negativeBudget_run:
  "\<exists>hs. runEquilibrium negativeBudget halfRandom =
     Inr (buildResult negativeBudget
           \<lparr> st_x = [[- 2]], st_y = [[0]], st_converged = True, st_iterations = 1,
             st_maxChange = Finite 0, st_history = hs \<rparr>)"
proof -
  obtain hs where it: "iterate negativeBudget 0 (initialState [[- 2]] [[0]]) =
     Inr \<lparr> st_x = [[- 2]], st_y = [[0]], st_converged = False, st_iterations = 1,
           st_maxChange = Finite 0, st_history = hs \<rparr>"
    using negativeBudget_iterate by blast
  have m: "maxIter negativeBudget = 1" "epsilon negativeBudget = 1 / 1000"
    by (simp_all add: negativeBudget_def example_defs)
  have "runLoop negativeBudget 0 (initialState [[- 2]] [[0]]) =
     Inr \<lparr> st_x = [[- 2]], st_y = [[0]], st_converged = True, st_iterations = 1,
           st_maxChange = Finite 0, st_history = hs \<rparr>"
    by (simp add: runLoop_step[OF _ it] m)
  then show ?thesis
    by (auto simp: runEquilibrium_def negativeBudget_init)
qed

text \<open>
  Claim C3.  A request with a negative entry in \<open>PT\<close> should be rejected by validation before
  the engine starts.  The validator only checks that \<open>PT\<close> and \<open>PJ\<close> are arrays of at most
  \<open>MAX_D\<close> and \<open>MAX_M\<close> entries; it never looks at the entries.  The request
  \<open>negativeBudgetBody\<close> with \<open>PT = [-2]\<close> is therefore valid, the handler runs the engine on it,
  and the answer is a complete result in which the defender's allocation is \<open>[-2]\<close>.
\<close>

theorem negative_budget_not_rejected:
  "validateEquilibriumParams negativeBudgetBody = Valid
   \<and> PT negativeBudget = [- 2]
   \<and> serveEquilibrium negativeBudgetBody negativeBudget halfRandom
       = Ok (projr (runEquilibrium negativeBudget halfRandom))
   \<and> iterations (projr (runEquilibrium negativeBudget halfRandom)) = 1
   \<and> allocation (defenders (projr (runEquilibrium negativeBudget halfRandom)) ! 0) = [- 2]"
proof -
  have v: "validateEquilibriumParams negativeBudgetBody = Valid"
    by (simp add: validateEquilibriumParams_def negativeBudgetBody_def validateNumber_def
        validateArray_def validateMatrix_def isIncluded_def MAX_N_def MAX_D_def MAX_M_def
        MAX_ITER_def MAX_POWER_def)
  obtain hs where run: "runEquilibrium negativeBudget halfRandom =
     Inr (buildResult negativeBudget
           \<lparr> st_x = [[- 2]], st_y = [[0]], st_converged = True, st_iterations = 1,
             st_maxChange = Finite 0, st_history = hs \<rparr>)"
    using negativeBudget_run by blast
  have d: "D negativeBudget = 1" "PT negativeBudget = [- 2]"
    by (simp_all add: negativeBudget_def example_defs)
  show ?thesis
    using v d by (simp add: serveEquilibrium_def run buildResult_fields buildResult_defenders)
qed

section \<open>Writing one value into selected slots\<close>

lemma fold_update_length:
  "length (fold (\<lambda>t acc. acc[k t := f t]) ts init) = length init"
  by (induction ts arbitrary: init) simp_all

lemma fold_update_const:
  "fold (\<lambda>t acc. acc[k t := v]) ts init =
     map (\<lambda>j. if j \<in> k ` set ts then v else init ! j) [0..<length init]"
proof (induction ts arbitrary: init)
  case Nil
  show ?case by (simp add: map_nth)
next
  case (Cons t ts)
  have "fold (\<lambda>t acc. acc[k t := v]) (t # ts) init =
        map (\<lambda>j. if j \<in> k ` set ts then v else init[k t := v] ! j) [0..<length init]"
    using Cons.IH[of "init[k t := v]"] by simp
  also have "\<dots> = map (\<lambda>j. if j \<in> k ` set (t # ts) then v else init ! j) [0..<length init]"
    by (rule map_cong) (auto simp: nth_list_update)
  finally show ?case .
qed

lemma fold_update_cong:
  "(\<And>t. t \<in> set ts \<Longrightarrow> f t = f' t) \<Longrightarrow>
   fold (\<lambda>t acc. acc[k t := f t]) ts init = fold (\<lambda>t acc. acc[k t := f' t]) ts init"
  by (induction ts arbitrary: init) simp_all

lemma fold_skip_update_const:
  "fold (\<lambda>i acc. if c i then acc else acc[i := v]) is init =
     map (\<lambda>j. if j \<in> set (filter (\<lambda>i. \<not> c i) is) then v else init ! j) [0..<length init]"
proof (induction "is" arbitrary: init)
  case Nil
  show ?case by (simp add: map_nth)
next
  case (Cons i "is")
  show ?case
  proof (cases "c i")
    case True
    then show ?thesis using Cons.IH[of init] by simp
  next
    case False
    have "fold (\<lambda>i acc. if c i then acc else acc[i := v]) (i # is) init =
          map (\<lambda>j. if j \<in> set (filter (\<lambda>i. \<not> c i) is) then v else init[i := v] ! j) [0..<length init]"
      using False Cons.IH[of "init[i := v]"] by simp
    also have "\<dots> = map (\<lambda>j. if j \<in> set (filter (\<lambda>i. \<not> c i) (i # is)) then v else init ! j) [0..<length init]"
      using False by (intro map_cong) (auto simp: nth_list_update)
    finally show ?thesis .
  qed
qed

lemma sum_list_indicator:
  assumes "distinct es" and "\<forall>i\<in>set es. i < n"
  shows "sum_list (map (\<lambda>j. if j \<in> set es then v else 0) [0..<n]) = (v :: real) * real (length es)"
proof -
  have inter: "{0..<n} \<inter> set es = set es"
    using assms(2) by auto
  have "sum_list (map (\<lambda>j. if j \<in> set es then v else 0) [0..<n])
        = (\<Sum>j\<in>{0..<n}. if j \<in> set es then v else 0)"
    by (simp add: interv_sum_list_conv_sum_set_nat)
  also have "\<dots> = (\<Sum>j\<in>{0..<n} \<inter> set es. v)"
    by (rule sum.inter_restrict[symmetric]) simp
  also have "\<dots> = v * real (card (set es))"
    unfolding inter by simp
  finally show ?thesis
    using assms(1) by (simp add: distinct_card)
qed

lemma sum_list_const_score:
  "\<forall>t\<in>set ts. f t = (c :: real) \<Longrightarrow> sum_list (map f ts) = c * real (length ts)"
  by (induction ts) (simp_all add: algebra_simps)

section \<open>Top-K against uniform\<close>

lemma eligible_update [simp]:
  "eligible (p\<lparr>jammerStrategy := s\<rparr>) = eligible p"
  by (rule ext) (simp add: eligible_def)

lemma uniform_row:
  assumes "distinct activeSet" and "\<forall>i\<in>set activeSet. i < N p" and "0 \<le> PJ p ! m"
    and "jammerStrategy p = J1_uniform"
  shows "applyJammerStrategy m y x p activeSet =
     Inr (map (\<lambda>i. if i \<in> set (filter (eligible p) activeSet)
                   then PJ p ! m / real (length (filter (eligible p) activeSet)) else 0) [0..<N p])"
proof (cases "activeSet = []")
  case True
  then show ?thesis
    by (simp add: applyJammerStrategy_def map_replicate_const)
next
  case False
  define es where "es = filter (eligible p) activeSet"
  define a where "a = real (length activeSet)"
  define n where "n = real (length es)"
  define b where "b = PJ p ! m"
  have apos: "0 < a" using False by (simp add: a_def)
  have es: "distinct es" "\<forall>i\<in>set es. i < N p"
    using assms(1,2) by (auto simp: es_def)
  have fe: "filter (\<lambda>i. \<not> (jammerObjective p = Oracle \<and> type (channelConfig p ! i) \<noteq> TReal)) activeSet = es"
    unfolding es_def by (rule filter_cong) (auto simp: eligible_def)
  have newY1: "fold (\<lambda>i acc. if jammerObjective p = Oracle \<and> type (channelConfig p ! i) \<noteq> TReal
                              then acc else acc[i := b / a]) activeSet (replicate (N p) 0)
        = map (\<lambda>j. if j \<in> set es then b / a else 0) [0..<N p]"
    by (subst fold_skip_update_const, unfold fe, simp cong: map_cong)
  have total: "sum_list (map (\<lambda>j. if j \<in> set es then b / a else 0) [0..<N p]) = b / a * n"
    using sum_list_indicator[OF es] by (simp add: n_def)
  have res: "applyJammerStrategy m y x p activeSet =
      (if b / a * n > 0
       then Inr (map (\<lambda>i. (map (\<lambda>j. if j \<in> set es then b / a else 0) [0..<N p] ! i / (b / a * n)) * b) [0..<N p])
       else Inr (map (\<lambda>j. if j \<in> set es then b / a else 0) [0..<N p]))"
  proof -
    have "applyJammerStrategy m y x p activeSet =
      (let newY1 = fold (\<lambda>i acc. if jammerObjective p = Oracle \<and> type (channelConfig p ! i) \<noteq> TReal
                              then acc else acc[i := b / a]) activeSet (replicate (N p) 0);
           total = sum_list newY1
       in if total > 0 then Inr (map (\<lambda>i. (newY1 ! i / total) * b) [0..<N p]) else Inr newY1)"
      using False assms(4) unfolding a_def b_def by (simp add: applyJammerStrategy_def Let_def)
    then show ?thesis
      unfolding newY1 Let_def total .
  qed
  show ?thesis
  proof (cases "b / a * n > 0")
    case True
    then have bn: "b \<noteq> 0" "n \<noteq> 0" by auto
    have "map (\<lambda>i. (map (\<lambda>j. if j \<in> set es then b / a else 0) [0..<N p] ! i / (b / a * n)) * b) [0..<N p]
        = map (\<lambda>i. if i \<in> set es then b / n else 0) [0..<N p]"
      using bn apos by (intro map_cong) (auto simp: field_simps)
    then show ?thesis
      using True res by (simp add: es_def n_def b_def)
  next
    case False
    have "0 \<le> b / a * n" using assms(3) apos by (simp add: b_def n_def)
    then have "b / a * n = 0" using False by simp
    then have z: "b = 0 \<or> n = 0" using apos by auto
    have "map (\<lambda>j. if j \<in> set es then b / a else 0) [0..<N p]
        = map (\<lambda>i. if i \<in> set es then b / n else 0) [0..<N p]"
    proof (rule map_cong[OF refl])
      fix j assume "j \<in> set [0..<N p]"
      show "(if j \<in> set es then b / a else 0) = (if j \<in> set es then b / n else 0)"
      proof (cases "b = 0")
        case True
        then show ?thesis by simp
      next
        case False
        then have "n = 0" using z by simp
        then have "es = []" by (simp add: n_def)
        then show ?thesis by simp
      qed
    qed
    then show ?thesis
      using False res by (simp add: es_def n_def b_def)
  qed
qed

lemma topK_row:
  assumes "jammerStrategy p = J2_topK"
    and "length (filter (eligible p) activeSet) \<le> topK p"
    and "\<forall>i\<in>set (filter (eligible p) activeSet).
           x ! owner (channelConfig p ! i) ! i * g p ! m ! i = c"
  shows "applyJammerStrategy m y x p activeSet =
     Inr (map (\<lambda>i. if i \<in> set (filter (eligible p) activeSet)
                   then PJ p ! m / real (length (filter (eligible p) activeSet)) else 0) [0..<N p])"
proof (cases "activeSet = []")
  case True
  then show ?thesis
    by (simp add: applyJammerStrategy_def map_replicate_const)
next
  case False
  define es where "es = filter (eligible p) activeSet"
  define scored where "scored = map (\<lambda>i. \<lparr>index = i, score = x ! owner (channelConfig p ! i) ! i * g p ! m ! i\<rparr>) es"
  define sorted where "sorted = sort_key (\<lambda>t. - score t) scored"
  define n where "n = real (length es)"
  define b where "b = PJ p ! m"
  have len: "length sorted = length es"
    by (simp add: sorted_def scored_def)
  have targets: "take (min (topK p) (length sorted)) sorted = sorted"
    using assms(2) len by (simp add: es_def)
  have set_sorted: "set sorted = set scored"
    by (simp add: sorted_def)
  have sc: "\<forall>t\<in>set sorted. score t = c"
    using assms(3) by (auto simp: set_sorted scored_def es_def)
  have idx: "index ` set sorted = set es"
    by (auto simp: set_sorted scored_def image_iff)
  have total: "sum_list (map score sorted) = c * n"
    using sum_list_const_score[OF sc] len by (simp add: n_def)
  have val: "\<And>t. t \<in> set sorted \<Longrightarrow>
      (if c * n > 0 then (score t / (c * n)) * b else b / n) = b / n"
    using sc by (auto simp: field_simps)
  have "fold (\<lambda>t acc. acc[index t := (if c * n > 0 then (score t / (c * n)) * b else b / n)]) sorted
          (replicate (N p) 0)
        = fold (\<lambda>t acc. acc[index t := b / n]) sorted (replicate (N p) 0)"
    by (rule fold_update_cong) (rule val)
  also have "\<dots> = map (\<lambda>j. if j \<in> set es then b / n else 0) [0..<N p]"
    by (simp add: fold_update_const idx cong: map_cong)
  finally have f: "fold (\<lambda>t acc. acc[index t := (if c * n > 0 then (score t / (c * n)) * b else b / n)]) sorted
          (replicate (N p) 0) = map (\<lambda>j. if j \<in> set es then b / n else 0) [0..<N p]" .
  have A: "applyJammerStrategy m y x p activeSet =
      Inr (fold (\<lambda>t acc. acc[index t :=
                  (if sum_list (map score (take (min (topK p) (length sorted)) sorted)) > 0
                   then (score t / sum_list (map score (take (min (topK p) (length sorted)) sorted))) * b
                   else b / real (length (take (min (topK p) (length sorted)) sorted)))])
                (take (min (topK p) (length sorted)) sorted) (replicate (N p) 0))"
    using False assms(1) unfolding sorted_def scored_def es_def b_def
    by (simp add: applyJammerStrategy_def Let_def)
  have B: "real (length sorted) = n"
    by (simp add: len n_def)
  show ?thesis
    using A f unfolding targets total B by (simp add: es_def n_def b_def)
qed

text \<open>
  Claim C7.  Let the active set be a duplicate-free list of channel indices below \<open>N\<close>, let the
  attacker's budget be non-negative, let \<open>topK\<close> be at least the number of eligible channels
  (the active channels, restricted to real ones under the oracle objective), and let all
  eligible channels have the same score \<open>x[owner(i)][i] * g[m][i]\<close>.  Then the top-K strategy
  and the uniform strategy return the same row: \<open>PJ[m]\<close> split equally over the eligible
  channels and zero elsewhere (all zero when nothing is eligible).
\<close>

theorem topK_equals_uniform:
  assumes "distinct activeSet" and "\<forall>i\<in>set activeSet. i < N p" and "0 \<le> PJ p ! m"
    and "length (filter (eligible p) activeSet) \<le> topK p"
    and "\<forall>i\<in>set (filter (eligible p) activeSet).
           x ! owner (channelConfig p ! i) ! i * g p ! m ! i = c"
  shows "applyJammerStrategy m y x (p\<lparr>jammerStrategy := J2_topK\<rparr>) activeSet
           = applyJammerStrategy m y x (p\<lparr>jammerStrategy := J1_uniform\<rparr>) activeSet
       \<and> applyJammerStrategy m y x (p\<lparr>jammerStrategy := J2_topK\<rparr>) activeSet
           = Inr (map (\<lambda>i. if i \<in> set (filter (eligible p) activeSet)
                           then PJ p ! m / real (length (filter (eligible p) activeSet)) else 0)
                      [0..<N p])"
proof -
  have u: "applyJammerStrategy m y x (p\<lparr>jammerStrategy := J1_uniform\<rparr>) activeSet
         = Inr (map (\<lambda>i. if i \<in> set (filter (eligible p) activeSet)
                           then PJ p ! m / real (length (filter (eligible p) activeSet)) else 0)
                      [0..<N p])"
    using uniform_row[of activeSet "p\<lparr>jammerStrategy := J1_uniform\<rparr>" m y x] assms(1,2,3) by simp
  have k: "applyJammerStrategy m y x (p\<lparr>jammerStrategy := J2_topK\<rparr>) activeSet
         = Inr (map (\<lambda>i. if i \<in> set (filter (eligible p) activeSet)
                           then PJ p ! m / real (length (filter (eligible p) activeSet)) else 0)
                      [0..<N p])"
    using topK_row[of "p\<lparr>jammerStrategy := J2_topK\<rparr>" activeSet x m c y] assms(4,5) by simp
  show ?thesis using u k by simp
qed

theorem topK_equals_uniform_witness:
  "getActiveSet [[2, 2, 1]] oracleThree = [0, 1, 2]
   \<and> filter (eligible oracleThree) [0, 1, 2] = [0, 1]
   \<and> length (filter (eligible oracleThree) [0, 1, 2]) \<le> topK oracleThree
   \<and> 0 \<le> PJ oracleThree ! 0
   \<and> [[2, 2, 1]] ! owner (channelConfig oracleThree ! 0) ! 0 * g oracleThree ! 0 ! 0 = 2
   \<and> [[2, 2, 1]] ! owner (channelConfig oracleThree ! 1) ! 1 * g oracleThree ! 0 ! 1 = 2
   \<and> applyJammerStrategy 0 [] [[2, 2, 1]] (oracleThree\<lparr>jammerStrategy := J2_topK\<rparr>) [0, 1, 2]
       = applyJammerStrategy 0 [] [[2, 2, 1]] (oracleThree\<lparr>jammerStrategy := J1_uniform\<rparr>) [0, 1, 2]
   \<and> applyJammerStrategy 0 [] [[2, 2, 1]] (oracleThree\<lparr>jammerStrategy := J2_topK\<rparr>) [0, 1, 2]
       = Inr [5, 5, 0]"
proof -
  have act: "getActiveSet [[2, 2, 1]] oracleThree = [0, 1, 2]"
    by (simp add: oracleThree_def getActiveSet_def ownerPower_def numeral_3_eq_3)
  have el: "filter (eligible oracleThree) [0, 1, 2] = [0, 1]"
    by (simp add: oracleThree_def eligible_def)
  have h1: "distinct [0, 1, 2 :: nat]" by simp
  have h2: "\<forall>i\<in>set [0, 1, 2]. i < N oracleThree"
    by (simp add: oracleThree_def)
  have h3: "0 \<le> PJ oracleThree ! 0"
    by (simp add: oracleThree_def)
  have h4: "length (filter (eligible oracleThree) [0, 1, 2]) \<le> topK oracleThree"
    unfolding el by (simp add: oracleThree_def)
  have s0: "[[2, 2, 1]] ! owner (channelConfig oracleThree ! 0) ! 0 * g oracleThree ! 0 ! 0 = (2 :: real)"
    and s1: "[[2, 2, 1]] ! owner (channelConfig oracleThree ! 1) ! 1 * g oracleThree ! 0 ! 1 = (2 :: real)"
    by (simp_all add: oracleThree_def)
  have h5: "\<forall>i\<in>set (filter (eligible oracleThree) [0, 1, 2]).
      [[2, 2, 1]] ! owner (channelConfig oracleThree ! i) ! i * g oracleThree ! 0 ! i = (2 :: real)"
    unfolding el using s0 s1 by simp
  have row: "map (\<lambda>i. if i \<in> set (filter (eligible oracleThree) [0, 1, 2])
                      then PJ oracleThree ! 0 / real (length (filter (eligible oracleThree) [0, 1, 2]))
                      else 0) [0..<N oracleThree] = [5, 5, 0]"
    unfolding el by (simp add: oracleThree_def numeral_3_eq_3)
  note both = topK_equals_uniform[OF h1 h2 h3 h4 h5, of "[]", unfolded row]
  show ?thesis
    by (intro conjI act el h4 h3 s0 s1 conjunct1[OF both] conjunct2[OF both])
qed

section \<open>The loop stops at one of the states \<open>stateAfter\<close>\<close>

lemma runLoop_stateAfter:
  assumes "runLoop p it s = Inr s'" and "stateAfter p s0 it = Inr s"
  shows "\<exists>k. it \<le> k \<and> stateAfter p s0 k = Inr (s'\<lparr>st_converged := st_converged s\<rparr>)"
  using assms
proof (induction p it s rule: runLoop.induct)
  case (1 p it s)
  show ?case
  proof (cases "it < maxIter p")
    case False
    then have "s' = s" using "1.prems"(1) by (simp add: runLoop_stop)
    then show ?thesis using "1.prems"(2) by auto
  next
    case True
    obtain s1 where it1: "iterate p it s = Inr s1"
      using "1.prems"(1) True by (cases "iterate p it s") (simp_all add: runLoop_error)
    have c1: "st_converged s1 = st_converged s"
      using iterate_fields[OF it1] by simp
    have sa: "stateAfter p s0 (Suc it) = Inr s1"
      using "1.prems"(2) it1 by simp
    show ?thesis
    proof (cases "belowEpsilon (st_maxChange s1) (epsilon p)")
      case True
      then have "s' = s1\<lparr>st_converged := True\<rparr>"
        using "1.prems"(1) runLoop_step[OF \<open>it < maxIter p\<close> it1] by simp
      then have "s'\<lparr>st_converged := st_converged s\<rparr> = s1"
        using c1 by simp
      then show ?thesis using sa by (intro exI[of _ "Suc it"]) simp
    next
      case False
      then have r: "runLoop p (Suc it) s1 = Inr s'"
        using "1.prems"(1) runLoop_step[OF \<open>it < maxIter p\<close> it1] by simp
      from "1.IH"[OF \<open>it < maxIter p\<close> it1 False r sa]
      obtain k where "Suc it \<le> k" "stateAfter p s0 k = Inr (s'\<lparr>st_converged := st_converged s1\<rparr>)"
        by blast
      then show ?thesis using c1 by (intro exI[of _ k]) simp
    qed
  qed
qed

section \<open>Shape and sign of list updates\<close>

lemma list_all_update:
  "list_all P a \<Longrightarrow> P v \<Longrightarrow> list_all P (a[i := v])"
  using set_update_subset_insert[of a i v] by (auto simp: list_all_iff)

lemma fold_update_list_all:
  "list_all P init \<Longrightarrow> (\<And>t. t \<in> set ts \<Longrightarrow> P (f t)) \<Longrightarrow>
   list_all P (fold (\<lambda>t acc. acc[k t := f t]) ts init)"
  by (induction ts arbitrary: init) (simp_all add: list_all_update)

lemma replicate_update_same: "(replicate n v)[i := v] = replicate n v"
  by (cases "i < n") (simp_all add: list_eq_iff_nth_eq nth_list_update)

lemma fold_update_zero:
  "(\<And>t. t \<in> set ts \<Longrightarrow> f t = 0) \<Longrightarrow>
   fold (\<lambda>t acc. acc[k t := f t]) ts (replicate n (0 :: real)) = replicate n 0"
  by (induction ts) (simp_all add: replicate_update_same)

lemma list_all_replicate: "P v \<Longrightarrow> list_all P (replicate n v)"
  by (simp add: list_all_iff)

section \<open>The initial defender rows\<close>

lemma decoy_fold:
  assumes "0 \<le> t" and "1 \<le> k"
  shows "0 \<le> r \<Longrightarrow> list_all (\<lambda>v. 0 \<le> v) a \<Longrightarrow>
     (case fold (\<lambda>i acc. case acc of (a, remaining) \<Rightarrow>
                   let v = min t (remaining / k) in (a[i := v], remaining - v)) ds (a, r :: real)
      of (a', r') \<Rightarrow> length a' = length a \<and> list_all (\<lambda>v. 0 \<le> v) a' \<and> 0 \<le> r')"
proof (induction ds arbitrary: a r)
  case Nil
  then show ?case by simp
next
  case (Cons d ds)
  define v where "v = min t (r / k)"
  have v0: "0 \<le> v" using assms Cons.prems(1) by (simp add: v_def)
  have "1 * r \<le> k * r" using assms(2) Cons.prems(1) by (intro mult_right_mono) simp_all
  then have "r / k \<le> r" using assms(2) by (simp add: field_simps)
  then have r0: "0 \<le> r - v" by (simp add: v_def)
  have a0: "list_all (\<lambda>v. 0 \<le> v) (a[d := v])"
    using Cons.prems(2) v0 by (rule list_all_update)
  show ?case
    using Cons.IH[OF r0 a0] by (simp add: v_def Let_def)
qed

lemma decoy_fold_zero:
  assumes "0 \<le> t"
  shows "fold (\<lambda>i acc. case acc of (a, remaining) \<Rightarrow>
                   let v = min t (remaining / k) in (a[i := v], remaining - v)) ds (replicate n 0, 0 :: real)
         = (replicate n 0, 0)"
  using assms by (induction ds) (simp_all add: replicate_update_same)

lemma initDefender_length: "length (fst (initDefender p rnd c d)) = N p"
proof -
  have "\<And>ds a r. length (fst (initDecoys p ds (a, r))) = length a"
  proof -
    fix ds a r
    have "\<And>k a r. length (fst (fold (\<lambda>i acc. case acc of (a, remaining) \<Rightarrow>
                   let v = min (tau p) (remaining / k) in (a[i := v], remaining - v)) ds (a, r :: real)))
          = length a"
      by (induction ds) (simp_all add: Let_def)
    then show "length (fst (initDecoys p ds (a, r))) = length a"
      by (simp add: initDecoys_def)
  qed
  then have "\<And>ds r a1 r1. initDecoys p ds (replicate (N p) 0, r) = (a1, r1) \<Longrightarrow> length a1 = N p"
    by (metis fst_conv length_replicate)
  then show ?thesis
    by (auto simp: initDefender_def Let_def fold_update_length split: prod.splits)
qed

lemma initDefender_nonneg:
  assumes "0 \<le> PT p ! d" and "0 \<le> tau p" and "\<forall>k. 0 < rnd k"
  shows "list_all (\<lambda>v. 0 \<le> v) (fst (initDefender p rnd c d))"
proof -
  define owned where "owned = ownedChannels p d"
  define z where "z = replicate (N p) (0 :: real)"
  have z0: "list_all (\<lambda>v. 0 \<le> v) z" by (simp add: z_def list_all_replicate)
  show ?thesis
  proof (cases "length owned > 0")
    case False
    then show ?thesis using z0 by (simp add: initDefender_def owned_def z_def)
  next
    case True
    show ?thesis
    proof (cases "randomInit p")
      case True
      define weights where "weights = map (\<lambda>k. rnd (c + k)) [0..<length owned]"
      have w: "\<forall>w\<in>set weights. 0 < w" using assms(3) by (auto simp: weights_def)
      then have "0 \<le> sum_list weights" by (intro sum_list_nonneg) (auto intro: less_imp_le)
      have "list_all (\<lambda>v. 0 \<le> v)
              (fold (\<lambda>idx a. a[owned ! idx := (weights ! idx / sum_list weights) * PT p ! d])
                 [0..<length owned] z)"
      proof (rule fold_update_list_all[OF z0])
        fix idx assume "idx \<in> set [0..<length owned]"
        then have "0 \<le> weights ! idx" using w by (auto simp: weights_def intro: less_imp_le)
        then show "0 \<le> weights ! idx / sum_list weights * PT p ! d"
          using \<open>0 \<le> sum_list weights\<close> assms(1) by simp
      qed
      then show ?thesis
        using True \<open>length owned > 0\<close>
        by (simp add: initDefender_def Let_def owned_def[symmetric] weights_def z_def
            randomWeights_def)
    next
      case False
      define realChannels where "realChannels = filter (\<lambda>i. type (channelConfig p ! i) = TReal) owned"
      define decoyChannels where "decoyChannels = filter (\<lambda>i. type (channelConfig p ! i) = TDecoy) owned"
      obtain a1 r1 where id: "initDecoys p decoyChannels (z, PT p ! d) = (a1, r1)"
        by (cases "initDecoys p decoyChannels (z, PT p ! d)") auto
      have "1 \<le> real (max 1 (length decoyChannels))" by simp
      from decoy_fold[OF assms(2) this assms(1) z0, of decoyChannels]
      have a1: "list_all (\<lambda>v. 0 \<le> v) a1" and r1: "0 \<le> r1"
        using id by (simp_all add: initDecoys_def)
      have "list_all (\<lambda>v. 0 \<le> v)
              (fold (\<lambda>i a. a[i := r1 / real (length realChannels)]) realChannels a1)"
        using r1 by (intro fold_update_list_all[OF a1]) simp
      then show ?thesis
        using False \<open>length owned > 0\<close> a1 id
        by (simp add: initDefender_def Let_def owned_def[symmetric] realChannels_def[symmetric]
            decoyChannels_def[symmetric] z_def[symmetric])
    qed
  qed
qed

lemma initDefender_zero:
  assumes "PT p ! d = 0" and "0 \<le> tau p"
  shows "fst (initDefender p rnd c d) = replicate (N p) 0"
proof -
  have dz: "\<And>ds. initDecoys p ds (replicate (N p) 0, 0) = (replicate (N p) 0, 0)"
    using decoy_fold_zero[OF assms(2)] by (simp add: initDecoys_def)
  show ?thesis
    using assms(1) by (simp add: initDefender_def Let_def dz fold_update_zero)
qed

lemma initDefenders_length: "length (initDefenders p rnd c ds) = length ds"
  by (induction ds arbitrary: c) (simp_all split: prod.splits)

lemma initDefenders_nth:
  "j < length ds \<Longrightarrow> \<exists>c'. initDefenders p rnd c ds ! j = fst (initDefender p rnd c' (ds ! j))"
proof (induction ds arbitrary: c j)
  case Nil
  then show ?case by simp
next
  case (Cons d ds)
  obtain a c1 where i: "initDefender p rnd c d = (a, c1)"
    by (cases "initDefender p rnd c d") auto
  show ?case
  proof (cases j)
    case 0
    then show ?thesis using i by (auto intro: exI[of _ c])
  next
    case (Suc j')
    then have "j' < length ds" using Cons.prems by simp
    from Cons.IH[OF this, of c1] show ?thesis using i Suc by simp
  qed
qed

lemma initDefenders_shaped: "shaped (D p) (N p) (initDefenders p rnd 0 [0..<D p])"
proof -
  have "\<forall>row\<in>set (initDefenders p rnd 0 [0..<D p]). length row = N p"
  proof
    fix row assume "row \<in> set (initDefenders p rnd 0 [0..<D p])"
    then obtain j where j: "j < D p" "row = initDefenders p rnd 0 [0..<D p] ! j"
      by (auto simp: in_set_conv_nth initDefenders_length)
    then obtain c' where "row = fst (initDefender p rnd c' ([0..<D p] ! j))"
      using initDefenders_nth[of j "[0..<D p]" p rnd 0] by auto
    then show "length row = N p" by (simp add: initDefender_length)
  qed
  then show ?thesis
    by (simp add: shaped_def initDefenders_length list_all_iff)
qed

lemma initDefenders_nonneg:
  assumes "length (PT p) = D p" and "list_all (\<lambda>v. 0 \<le> v) (PT p)" and "0 \<le> tau p"
    and "\<forall>k. 0 < rnd k"
  shows "nonneg (initDefenders p rnd 0 [0..<D p])"
proof -
  have "\<forall>row\<in>set (initDefenders p rnd 0 [0..<D p]). list_all (\<lambda>v. 0 \<le> v) row"
  proof
    fix row assume "row \<in> set (initDefenders p rnd 0 [0..<D p])"
    then obtain j where j: "j < D p" "row = initDefenders p rnd 0 [0..<D p] ! j"
      by (auto simp: in_set_conv_nth initDefenders_length)
    then obtain c' where r: "row = fst (initDefender p rnd c' j)"
      using initDefenders_nth[of j "[0..<D p]" p rnd 0] by auto
    have "0 \<le> PT p ! j" using assms(1,2) j(1) by (simp add: list_all_length)
    then show "list_all (\<lambda>v. 0 \<le> v) row"
      unfolding r using assms(3,4) by (intro initDefender_nonneg)
  qed
  then show ?thesis
    by (simp add: nonneg_def list_all_iff)
qed

lemma initDefenders_zero:
  assumes "d < D p" and "PT p ! d = 0" and "0 \<le> tau p"
  shows "initDefenders p rnd 0 [0..<D p] ! d = replicate (N p) 0"
proof -
  obtain c' where "initDefenders p rnd 0 [0..<D p] ! d = fst (initDefender p rnd c' d)"
    using initDefenders_nth[of d "[0..<D p]" p rnd 0] assms(1) by auto
  then show ?thesis
    using initDefender_zero[OF assms(2,3)] by simp
qed

section \<open>Shape and sign of the candidate rows\<close>

lemma projectToSimplex_nonneg:
  assumes "0 \<le> b"
  shows "list_all (\<lambda>e. 0 \<le> e) (projectToSimplex v b)"
proof -
  have s: "0 \<le> sum_list (map (\<lambda>e. max 0 e) v)" by (rule sum_list_map_max0_nonneg)
  show ?thesis
    using assms s by (auto simp: projectToSimplex_def Let_def list_all_iff)
qed

lemma projectToSimplex_zero: "projectToSimplex v 0 = replicate (length v) 0"
  by (simp add: projectToSimplex_def Let_def map_replicate_const)

lemma fold_skip_update_list_all:
  "list_all P init \<Longrightarrow> P v \<Longrightarrow>
   list_all P (fold (\<lambda>i acc. if c i then acc else acc[i := v]) is init)"
  by (induction "is" arbitrary: init) (simp_all add: list_all_update)

lemma fold_skip_update_length:
  "length (fold (\<lambda>i acc. if c i then acc else acc[i := v]) is init) = length init"
  by (induction "is" arbitrary: init) simp_all

lemma collect_nth:
  "collect vs = Inr rs \<Longrightarrow> i < length vs \<Longrightarrow> vs ! i = Inr (rs ! i)"
proof (induction vs arbitrary: rs i)
  case Nil
  then show ?case by simp
next
  case (Cons v vs)
  then show ?case
    by (cases v; cases i) (auto split: sum.splits)
qed


lemma applyJammerStrategy_length:
  assumes "applyJammerStrategy m y x p a = Inr r"
  shows "length r = N p"
proof (cases "a = []")
  case True
  then show ?thesis using assms by (auto simp: applyJammerStrategy_def)
next
  case False
  show ?thesis
  proof (cases "jammerStrategy p")
    case J1_uniform
    then show ?thesis
      using assms False
      by (auto simp: applyJammerStrategy_def Let_def fold_skip_update_length split: if_splits)
  next
    case J2_topK
    then show ?thesis
      using assms False by (auto simp: applyJammerStrategy_def Let_def fold_update_length)
  next
    case J3_optimization
    then show ?thesis
      using assms False
      by (auto simp: applyJammerStrategy_def Let_def fold_update_length split: sum.splits if_splits)
  qed
qed

lemma applyJammerStrategy_nonneg:
  assumes "applyJammerStrategy m y x p a = Inr r" and "0 \<le> PJ p ! m"
    and "\<forall>i\<in>set a. 0 \<le> x ! owner (channelConfig p ! i) ! i * g p ! m ! i"
  shows "list_all (\<lambda>v. 0 \<le> v) r"
proof (cases "a = []")
  case True
  then show ?thesis using assms(1) by (auto simp: applyJammerStrategy_def list_all_replicate)
next
  case False
  define z where "z = replicate (N p) (0 :: real)"
  have z0: "list_all (\<lambda>v. 0 \<le> v) z" by (simp add: z_def list_all_replicate)
  show ?thesis
  proof (cases "jammerStrategy p")
    case J1_uniform
    define newY1 where "newY1 = fold (\<lambda>i acc. if jammerObjective p = Oracle \<and> type (channelConfig p ! i) \<noteq> TReal
                                      then acc else acc[i := PJ p ! m / real (length a)]) a z"
    have n1: "list_all (\<lambda>v. 0 \<le> v) newY1"
      unfolding newY1_def using assms(2) by (intro fold_skip_update_list_all[OF z0]) simp
    have l1: "length newY1 = N p"
      by (simp add: newY1_def fold_skip_update_length z_def)
    have r: "r = (if sum_list newY1 > 0 then map (\<lambda>i. (newY1 ! i / sum_list newY1) * PJ p ! m) [0..<N p]
                  else newY1)"
      using assms(1) False J1_uniform
      by (auto simp: applyJammerStrategy_def Let_def newY1_def z_def)
    show ?thesis
    proof (cases "sum_list newY1 > 0")
      case True
      have "\<forall>i<N p. 0 \<le> newY1 ! i" using n1 l1 by (simp add: list_all_length)
      then show ?thesis
        using True r assms(2) by (auto simp: list_all_iff)
    next
      case False
      then show ?thesis using r n1 by simp
    qed
  next
    case J2_topK
    define scored where "scored = map (\<lambda>i. \<lparr>index = i, score = x ! owner (channelConfig p ! i) ! i * g p ! m ! i\<rparr>)
                            (filter (eligible p) a)"
    define targets where "targets = take (min (topK p) (length (sort_key (\<lambda>t. - score t) scored)))
                                         (sort_key (\<lambda>t. - score t) scored)"
    define total where "total = sum_list (map score targets)"
    have sub: "set targets \<subseteq> set scored"
      unfolding targets_def using set_take_subset[of _ "sort_key (\<lambda>t. - score t) scored"] by auto
    have sc: "\<forall>t\<in>set targets. 0 \<le> score t"
      using sub assms(3) by (auto simp: scored_def)
    have "applyJammerStrategy m y x p a =
            Inr (fold (\<lambda>t acc. acc[index t := (if total > 0 then (score t / total) * PJ p ! m
                                               else PJ p ! m / real (length targets))]) targets z)"
      using False J2_topK unfolding total_def targets_def scored_def z_def
      by (simp add: applyJammerStrategy_def Let_def)
    then have r: "r = fold (\<lambda>t acc. acc[index t := (if total > 0 then (score t / total) * PJ p ! m
                                               else PJ p ! m / real (length targets))]) targets z"
      using assms(1) by simp
    show ?thesis
      unfolding r using sc assms(2) by (intro fold_update_list_all[OF z0]) auto
  next
    case J3_optimization
    obtain grad where gr: "attackerGradient m x y p a = Inr grad"
      using assms(1) False J3_optimization
      by (cases "attackerGradient m x y p a") (auto simp: applyJammerStrategy_def)
    define gs where "gs = sum_list (map (\<lambda>gi. max 0 gi) grad)"
    have r: "r = (if gs > 0 then map (\<lambda>i. (max 0 (grad ! i) / gs) * PJ p ! m) [0..<N p]
                  else fold (\<lambda>i acc. acc[i := PJ p ! m / real (max 1 (length (filter (eligible p) a)))])
                         (filter (eligible p) a) z)"
      using assms(1) False J3_optimization gr
      by (auto simp: applyJammerStrategy_def Let_def gs_def z_def)
    show ?thesis
    proof (cases "gs > 0")
      case True
      then show ?thesis using r assms(2) by (auto simp: list_all_iff)
    next
      case False
      have "list_all (\<lambda>v. 0 \<le> v)
              (fold (\<lambda>i acc. acc[i := PJ p ! m / real (max 1 (length (filter (eligible p) a)))])
                         (filter (eligible p) a) z)"
        using assms(2) by (intro fold_update_list_all[OF z0]) simp
      then show ?thesis using False r by simp
    qed
  qed
qed

lemma candidate_length:
  assumes "candidate p m y x a = Inr r" and "length (y ! m) = N p"
  shows "length r = N p"
proof (cases "attackerMode p = Coordinated \<or> jammerStrategy p \<noteq> J3_optimization")
  case True
  then show ?thesis using assms(1) applyJammerStrategy_length by (simp add: candidate_def)
next
  case False
  then show ?thesis
    using assms by (auto simp: candidate_def projectToSimplex_length split: sum.splits)
qed

lemma candidate_nonneg:
  assumes "candidate p m y x a = Inr r" and "0 \<le> PJ p ! m"
    and "\<forall>i\<in>set a. 0 \<le> x ! owner (channelConfig p ! i) ! i * g p ! m ! i"
  shows "list_all (\<lambda>v. 0 \<le> v) r"
proof (cases "attackerMode p = Coordinated \<or> jammerStrategy p \<noteq> J3_optimization")
  case True
  then show ?thesis
    using assms applyJammerStrategy_nonneg by (simp add: candidate_def)
next
  case False
  then show ?thesis
    using assms(1,2) by (auto simp: candidate_def projectToSimplex_nonneg split: sum.splits)
qed

section \<open>Damping\<close>

lemma damp_length: "length (damp p old new) = N p"
  by (simp add: damp_def)

lemma damp_nonneg:
  assumes "0 \<le> alpha p" and "alpha p \<le> 1"
    and "list_all (\<lambda>v. 0 \<le> v) old" and "length old = N p"
    and "list_all (\<lambda>v. 0 \<le> v) new" and "length new = N p"
  shows "list_all (\<lambda>v. 0 \<le> v) (damp p old new)"
proof -
  have "\<And>i. i < N p \<Longrightarrow> 0 \<le> (1 - alpha p) * old ! i + alpha p * new ! i"
  proof -
    fix i assume "i < N p"
    then have "0 \<le> old ! i" "0 \<le> new ! i"
      using assms(3-6) by (simp_all add: list_all_length)
    then show "0 \<le> (1 - alpha p) * old ! i + alpha p * new ! i"
      using assms(1,2) by simp
  qed
  then show ?thesis
    by (simp add: damp_def list_all_iff)
qed

lemma damp_zero: "damp p (replicate (N p) 0) (replicate (N p) 0) = replicate (N p) 0"
  by (simp add: damp_def list_eq_iff_nth_eq)

section \<open>The state invariant\<close>

lemma shaped_nth: "shaped k n rows \<Longrightarrow> j < k \<Longrightarrow> length (rows ! j) = n"
  by (simp add: shaped_def list_all_length)

lemma nonneg_nth: "nonneg rows \<Longrightarrow> j < length rows \<Longrightarrow> list_all (\<lambda>v. 0 \<le> v) (rows ! j)"
  by (simp add: nonneg_def list_all_length)

lemma shaped_update: "shaped k n rows \<Longrightarrow> length r = n \<Longrightarrow> shaped k n (rows[j := r])"
  by (simp add: shaped_def list_all_update)

lemma nonneg_update: "nonneg rows \<Longrightarrow> list_all (\<lambda>v. 0 \<le> v) r \<Longrightarrow> nonneg (rows[j := r])"
  by (simp add: nonneg_def list_all_update)

lemma entry_nonneg:
  "shaped k n rows \<Longrightarrow> nonneg rows \<Longrightarrow> j < k \<Longrightarrow> i < n \<Longrightarrow> 0 \<le> rows ! j ! i"
  using shaped_nth[of k n rows j] nonneg_nth[of rows j]
  by (simp add: shaped_def list_all_length)

lemma valid_budget:
  assumes "validParams p"
  shows "d < D p \<Longrightarrow> 0 \<le> PT p ! d" and "m < M p \<Longrightarrow> 0 \<le> PJ p ! m"
  using assms by (simp_all add: validParams_def wellFormed_def list_all_length)

lemma valid_gain:
  assumes "validParams p" and "m < M p" and "i < N p"
  shows "0 \<le> g p ! m ! i"
proof -
  have "length (g p ! m) = N p" "list_all (\<lambda>v. 0 \<le> v) (g p ! m)"
    using assms(1,2) by (simp_all add: validParams_def wellFormed_def list_all_length)
  then show ?thesis using assms(3) by (simp add: list_all_length)
qed

lemma valid_owner:
  assumes "validParams p" and "i < N p"
  shows "owner (channelConfig p ! i) < D p"
  using assms by (simp add: validParams_def wellFormed_def list_all_length)

lemma getActiveSet_range: "i \<in> set (getActiveSet x p) \<Longrightarrow> i < N p"
  by (simp add: getActiveSet_def)


lemma updateDefender_ok:
  assumes "validParams p" and "d < D p"
    and "shaped (D p) (N p) xOld" and "nonneg xOld"
    and "shaped (D p) (N p) x" and "nonneg x"
  shows "shaped (D p) (N p) (fst (updateDefender p xOld y d (x, mc, dd)))
       \<and> nonneg (fst (updateDefender p xOld y d (x, mc, dd)))"
proof -
  define update where "update = map (\<lambda>i. x ! d ! i + stepSize * defenderGradient d x y p ! i) [0..<length (x ! d)]"
  define projected where "projected = projectToSimplex update (PT p ! d)"
  have lx: "length (x ! d) = N p" using assms(5,2) by (rule shaped_nth)
  have lp: "length projected = N p"
    by (simp add: projected_def projectToSimplex_length update_def lx)
  have np: "list_all (\<lambda>v. 0 \<le> v) projected"
    unfolding projected_def using valid_budget(1)[OF assms(1,2)] by (rule projectToSimplex_nonneg)
  have lo: "length (xOld ! d) = N p" using assms(3,2) by (rule shaped_nth)
  have no: "list_all (\<lambda>v. 0 \<le> v) (xOld ! d)"
    using assms(3,4,2) by (intro nonneg_nth) (simp_all add: shaped_def)
  have a: "0 \<le> alpha p" "alpha p \<le> 1" using assms(1) by (simp_all add: validParams_def)
  have nd: "list_all (\<lambda>v. 0 \<le> v) (damp p (xOld ! d) projected)"
    using a no lo np lp by (rule damp_nonneg)
  have eq: "fst (updateDefender p xOld y d (x, mc, dd)) = x[d := damp p (xOld ! d) projected]"
    by (simp add: updateDefender_def Let_def projected_def update_def)
  show ?thesis
    unfolding eq using shaped_update[OF assms(5) damp_length] nonneg_update[OF assms(6) nd] by simp
qed

lemma fold_updateDefender_ok:
  assumes "validParams p" and "shaped (D p) (N p) xOld" and "nonneg xOld"
  shows "\<forall>d\<in>set ds. d < D p \<Longrightarrow> shaped (D p) (N p) (fst acc) \<Longrightarrow> nonneg (fst acc) \<Longrightarrow>
         shaped (D p) (N p) (fst (fold (updateDefender p xOld y) ds acc))
       \<and> nonneg (fst (fold (updateDefender p xOld y) ds acc))"
proof (induction ds arbitrary: acc)
  case Nil
  then show ?case by simp
next
  case (Cons d ds)
  obtain x mc dd where acc: "acc = (x, mc, dd)" by (cases acc) auto
  have d: "d < D p" using Cons.prems(1) by simp
  have step: "shaped (D p) (N p) (fst (updateDefender p xOld y d acc))
            \<and> nonneg (fst (updateDefender p xOld y d acc))"
    unfolding acc using updateDefender_ok[OF assms(1) d assms(2,3)] Cons.prems(2,3) acc by simp
  show ?case
    using Cons.IH[of "updateDefender p xOld y d acc"] Cons.prems(1) step by simp
qed

lemma score_nonneg:
  assumes "validParams p" and "m < M p" and "shaped (D p) (N p) x" and "nonneg x"
    and "i \<in> set (getActiveSet x' p)"
  shows "0 \<le> x ! owner (channelConfig p ! i) ! i * g p ! m ! i"
proof -
  have i: "i < N p" using assms(5) by (rule getActiveSet_range)
  have "0 \<le> x ! owner (channelConfig p ! i) ! i"
    using assms(3,4) valid_owner[OF assms(1) i] i by (rule entry_nonneg)
  moreover have "0 \<le> g p ! m ! i" using assms(1,2) i by (rule valid_gain)
  ultimately show ?thesis by simp
qed

lemma updateAttacker_inv:
  assumes "validParams p" and "m < M p"
    and "shaped (D p) (N p) x" and "nonneg x"
    and "shaped (M p) (N p) yOld" and "nonneg yOld"
    and "shaped (M p) (N p) (fst acc)" and "nonneg (fst acc)"
    and "updateAttacker p yOld x (getActiveSet x p) m acc = Inr acc'"
  shows "shaped (M p) (N p) (fst acc') \<and> nonneg (fst acc')"
proof -
  obtain y mc ad where acc: "acc = (y, mc, ad)" by (cases acc) auto
  obtain newY where c: "candidate p m y x (getActiveSet x p) = Inr newY"
    using assms(9) by (cases "candidate p m y x (getActiveSet x p)") (auto simp: updateAttacker_def acc)
  have ly: "length (y ! m) = N p" using assms(7,2) acc by (simp add: shaped_nth)
  have ln: "length newY = N p" using c ly by (rule candidate_length)
  have nn: "list_all (\<lambda>v. 0 \<le> v) newY"
  proof (rule candidate_nonneg[OF c valid_budget(2)[OF assms(1,2)]])
    show "\<forall>i\<in>set (getActiveSet x p). 0 \<le> x ! owner (channelConfig p ! i) ! i * g p ! m ! i"
      using score_nonneg[OF assms(1,2,3,4)] by blast
  qed
  have lo: "length (yOld ! m) = N p" using assms(5,2) by (rule shaped_nth)
  have no: "list_all (\<lambda>v. 0 \<le> v) (yOld ! m)"
    using assms(5,6,2) by (intro nonneg_nth) (simp_all add: shaped_def)
  have a: "0 \<le> alpha p" "alpha p \<le> 1" using assms(1) by (simp_all add: validParams_def)
  have nd: "list_all (\<lambda>v. 0 \<le> v) (damp p (yOld ! m) newY)"
    using a no lo nn ln by (rule damp_nonneg)
  have eq: "fst acc' = y[m := damp p (yOld ! m) newY]"
    using assms(9) c by (auto simp: updateAttacker_def acc Let_def)
  show ?thesis
    unfolding eq using shaped_update[OF _ damp_length] nonneg_update[OF _ nd] assms(7,8) acc by simp
qed

lemma foldErr_updateAttacker_inv:
  assumes "validParams p" and "shaped (D p) (N p) x" and "nonneg x"
    and "shaped (M p) (N p) yOld" and "nonneg yOld"
  shows "\<forall>m\<in>set ms. m < M p \<Longrightarrow> shaped (M p) (N p) (fst acc) \<Longrightarrow> nonneg (fst acc) \<Longrightarrow>
         foldErr (updateAttacker p yOld x (getActiveSet x p)) ms acc = Inr acc' \<Longrightarrow>
         shaped (M p) (N p) (fst acc') \<and> nonneg (fst acc')"
proof (induction ms arbitrary: acc)
  case Nil
  then show ?case by simp
next
  case (Cons m ms)
  obtain acc1 where a1: "updateAttacker p yOld x (getActiveSet x p) m acc = Inr acc1"
    using Cons.prems(4) by (cases "updateAttacker p yOld x (getActiveSet x p) m acc") simp_all
  have m: "m < M p" using Cons.prems(1) by simp
  have step: "shaped (M p) (N p) (fst acc1) \<and> nonneg (fst acc1)"
    using updateAttacker_inv[OF assms(1) m assms(2,3,4,5) Cons.prems(2,3) a1] .
  have rest: "foldErr (updateAttacker p yOld x (getActiveSet x p)) ms acc1 = Inr acc'"
    using Cons.prems(4) a1 by simp
  show ?case
    using Cons.IH[of acc1] Cons.prems(1) step rest by simp
qed

lemma iterate_parts:
  assumes "iterate p it s = Inr s'"
  obtains mc1 dd acc' where
    "fold (updateDefender p (st_x s) (st_y s)) [0..<D p] (st_x s, 0, []) = (st_x s', mc1, dd)"
    and "foldErr (updateAttacker p (st_y s) (st_x s') (getActiveSet (st_x s') p)) [0..<M p]
           (st_y s, mc1, []) = Inr acc'"
    and "st_y s' = fst acc'"
  using assms by (auto simp: iterate_def Let_def split: prod.splits sum.splits)

lemma iterate_stateOk:
  assumes "validParams p" and "stateOk p s" and "iterate p it s = Inr s'"
  shows "stateOk p s'"
proof -
  obtain mc1 dd acc' where
    f: "fold (updateDefender p (st_x s) (st_y s)) [0..<D p] (st_x s, 0, []) = (st_x s', mc1, dd)"
    and g: "foldErr (updateAttacker p (st_y s) (st_x s') (getActiveSet (st_x s') p)) [0..<M p]
           (st_y s, mc1, []) = Inr acc'"
    and y: "st_y s' = fst acc'"
    using assms(3) by (rule iterate_parts)
  have sx: "shaped (D p) (N p) (st_x s)" "nonneg (st_x s)"
    and sy: "shaped (M p) (N p) (st_y s)" "nonneg (st_y s)"
    using assms(2) by (simp_all add: stateOk_def)
  have x': "shaped (D p) (N p) (st_x s') \<and> nonneg (st_x s')"
    using fold_updateDefender_ok[OF assms(1) sx, of "[0..<D p]" "(st_x s, 0, [])" "st_y s"] sx f
    by simp
  have y': "shaped (M p) (N p) (fst acc') \<and> nonneg (fst acc')"
    using foldErr_updateAttacker_inv[OF assms(1) _ _ sy, of "st_x s'" "[0..<M p]" "(st_y s, mc1, [])" acc']
      x' sy g by simp
  show ?thesis
    using x' y' y by (simp add: stateOk_def)
qed

lemma initAttackers_stateOk:
  assumes "validParams p" and "\<forall>k. 0 < rnd k"
    and "initAttackers p (initDefenders p rnd 0 [0..<D p]) = Inr y0"
  shows "stateOk p (initialState (initDefenders p rnd 0 [0..<D p]) y0)"
proof -
  define x0 where "x0 = initDefenders p rnd 0 [0..<D p]"
  have sx: "shaped (D p) (N p) x0"
    unfolding x0_def by (rule initDefenders_shaped)
  have nx: "nonneg x0"
    unfolding x0_def using assms(1,2)
    by (intro initDefenders_nonneg) (simp_all add: validParams_def wellFormed_def)
  have c: "collect (map (\<lambda>m. applyJammerStrategy m [] x0 p (getActiveSet x0 p)) [0..<M p]) = Inr y0"
    using assms(3) by (simp add: initAttackers_def x0_def Let_def)
  have ly: "length y0 = M p" using collect_length[OF c] by simp
  have rows: "\<And>m. m < M p \<Longrightarrow> applyJammerStrategy m [] x0 p (getActiveSet x0 p) = Inr (y0 ! m)"
    using collect_nth[OF c] by simp
  have "\<forall>m<M p. length (y0 ! m) = N p \<and> list_all (\<lambda>v. 0 \<le> v) (y0 ! m)"
  proof (intro allI impI)
    fix m assume m: "m < M p"
    have "length (y0 ! m) = N p" using rows[OF m] by (rule applyJammerStrategy_length)
    moreover have "list_all (\<lambda>v. 0 \<le> v) (y0 ! m)"
      using rows[OF m] valid_budget(2)[OF assms(1) m] score_nonneg[OF assms(1) m sx nx]
      by (intro applyJammerStrategy_nonneg) auto
    ultimately show "length (y0 ! m) = N p \<and> list_all (\<lambda>v. 0 \<le> v) (y0 ! m)" by simp
  qed
  then have "shaped (M p) (N p) y0" "nonneg y0"
    using ly by (simp_all add: shaped_def nonneg_def list_all_length)
  then show ?thesis
    using sx nx by (simp add: stateOk_def initialState_def x0_def)
qed

lemma stateAfter_stateOk:
  assumes "validParams p" and "stateOk p s0"
  shows "stateAfter p s0 k = Inr s \<Longrightarrow> stateOk p s"
proof (induction k arbitrary: s)
  case 0
  then show ?case using assms(2) by simp
next
  case (Suc k)
  obtain s1 where s1: "stateAfter p s0 k = Inr s1" and it: "iterate p k s1 = Inr s"
    using Suc.prems by (cases "stateAfter p s0 k") simp_all
  show ?case
    using iterate_stateOk[OF assms(1) Suc.IH[OF s1] it] .
qed

lemma stateOk_converged [simp]: "stateOk p (s\<lparr>st_converged := b\<rparr>) = stateOk p s"
  by (simp add: stateOk_def)

section \<open>Non-negative allocations\<close>

lemma example_valid:
  "validParams decoyOnly" "validParams belowThreshold" "validParams zeroBudget"
  by (simp_all add: validParams_def wellFormed_def example_defs zeroBudget_def)

lemma halfRandom_positive: "\<forall>k. 0 < halfRandom k"
  by (simp add: halfRandom_def)

lemma final_stateOk:
  assumes "validParams p" and "stateOk p s0" and "runLoop p 0 s0 = Inr s"
  shows "stateOk p s"
proof -
  obtain k where "stateAfter p s0 k = Inr (s\<lparr>st_converged := st_converged s0\<rparr>)"
    using runLoop_stateAfter[OF assms(3), of s0] by auto
  from stateAfter_stateOk[OF assms(1,2) this] show ?thesis by simp
qed

lemma buildResult_allocations_nonneg:
  assumes "stateOk p s"
  shows "list_all (\<lambda>a. list_all (\<lambda>v. 0 \<le> v) (allocation a)) (defenders (buildResult p s))"
    and "list_all (\<lambda>a. list_all (\<lambda>v. 0 \<le> v) (allocation a)) (attackers (buildResult p s))"
proof -
  have x: "\<forall>d<D p. list_all (\<lambda>v. 0 \<le> v) (st_x s ! d)"
    using assms nonneg_nth[of "st_x s"] by (simp add: stateOk_def shaped_def)
  have y: "\<forall>m<M p. list_all (\<lambda>v. 0 \<le> v) (st_y s ! m)"
    using assms nonneg_nth[of "st_y s"] by (simp add: stateOk_def shaped_def)
  show "list_all (\<lambda>a. list_all (\<lambda>v. 0 \<le> v) (allocation a)) (defenders (buildResult p s))"
    using x by (simp add: list_all_length buildResult_defenders)
  show "list_all (\<lambda>a. list_all (\<lambda>v. 0 \<le> v) (allocation a)) (attackers (buildResult p s))"
    using y by (simp add: list_all_length buildResult_attackers)
qed

text \<open>
  Runs with positive draws.  For valid parameters (non-negative budgets and gains, \<open>tau \<ge> 0\<close>,
  \<open>0 < alpha \<le> 1\<close>, arrays of the declared dimensions) and positive pseudo-random draws,
  whenever the attackers can be seeded: at the end of every iteration no entry of \<open>x\<close> or \<open>y\<close>
  is negative, and the run returns a result in which no allocation entry is negative.
\<close>

theorem allocations_nonneg:
  assumes "validParams p" and "\<forall>k. 0 < rnd k"
    and "initAttackers p (initDefenders p rnd 0 [0..<D p]) = Inr y0"
  shows "(\<forall>k s. stateAfter p (initialState (initDefenders p rnd 0 [0..<D p]) y0) k = Inr s
                 \<longrightarrow> nonneg (st_x s) \<and> nonneg (st_y s))
       \<and> (\<exists>res. runEquilibrium p rnd = Inr res
             \<and> list_all (\<lambda>a. list_all (\<lambda>v. 0 \<le> v) (allocation a)) (defenders res)
             \<and> list_all (\<lambda>a. list_all (\<lambda>v. 0 \<le> v) (allocation a)) (attackers res))"
proof -
  define s0 where "s0 = initialState (initDefenders p rnd 0 [0..<D p]) y0"
  have ok0: "stateOk p s0"
    unfolding s0_def using assms by (rule initAttackers_stateOk)
  have every: "\<forall>k s. stateAfter p s0 k = Inr s \<longrightarrow> nonneg (st_x s) \<and> nonneg (st_y s)"
    using stateAfter_stateOk[OF assms(1) ok0] by (auto simp: stateOk_def)
  obtain s where loop: "runLoop p 0 s0 = Inr s" and run: "runEquilibrium p rnd = Inr (buildResult p s)"
    using assms(3) unfolding s0_def by (rule runEquilibrium_returns)
  have "stateOk p s"
    using assms(1) ok0 loop by (rule final_stateOk)
  then show ?thesis
    using every run buildResult_allocations_nonneg unfolding s0_def by blast
qed

theorem allocations_nonneg_witness:
  "validParams decoyOnly \<and> (\<forall>k. 0 < halfRandom k)
   \<and> initAttackers decoyOnly (initDefenders decoyOnly halfRandom 0 [0..<D decoyOnly]) = Inr [[10]]
   \<and> \<not> isl (stateAfter decoyOnly (initialState (initDefenders decoyOnly halfRandom 0 [0..<D decoyOnly]) [[10]]) 1)
   \<and> st_x (projr (stateAfter decoyOnly
         (initialState (initDefenders decoyOnly halfRandom 0 [0..<D decoyOnly]) [[10]]) 1)) = [[157 / 50]]
   \<and> nonneg (st_x (projr (stateAfter decoyOnly
         (initialState (initDefenders decoyOnly halfRandom 0 [0..<D decoyOnly]) [[10]]) 1)))
   \<and> nonneg (st_y (projr (stateAfter decoyOnly
         (initialState (initDefenders decoyOnly halfRandom 0 [0..<D decoyOnly]) [[10]]) 1)))"
proof -
  have iA: "initAttackers decoyOnly (initDefenders decoyOnly halfRandom 0 [0..<D decoyOnly]) = Inr [[10]]"
    by (simp add: decoyOnly_init)
  obtain hs where it: "iterate decoyOnly 0 (initialState [[1 / 5]] [[10]]) =
     Inr \<lparr> st_x = [[157 / 50]], st_y = [[10]], st_converged = False, st_iterations = 1,
           st_maxChange = Finite (147 / 50), st_history = hs \<rparr>"
    using decoyOnly_iterate by blast
  have sa: "stateAfter decoyOnly (initialState (initDefenders decoyOnly halfRandom 0 [0..<D decoyOnly]) [[10]]) 1
        = Inr \<lparr> st_x = [[157 / 50]], st_y = [[10]], st_converged = False, st_iterations = 1,
                st_maxChange = Finite (147 / 50), st_history = hs \<rparr>"
    by (simp add: decoyOnly_init it)
  have every: "\<forall>k s. stateAfter decoyOnly
        (initialState (initDefenders decoyOnly halfRandom 0 [0..<D decoyOnly]) [[10]]) k = Inr s
        \<longrightarrow> nonneg (st_x s) \<and> nonneg (st_y s)"
    using allocations_nonneg[OF example_valid(1) halfRandom_positive iA] by blast
  from every[rule_format, OF sa] have nn: "nonneg [[157 / 50]] \<and> nonneg [[10]]"
    by simp
  show ?thesis
    unfolding sa using example_valid(1) halfRandom_positive iA nn by simp
qed

section \<open>A defender without budget\<close>

lemma updateDefender_row:
  assumes "d < length x"
  shows "length (fst (updateDefender p xOld y d' (x, mc, dd))) = length x"
    and "fst (updateDefender p xOld y d' (x, mc, dd)) ! d =
       (if d' = d
        then damp p (xOld ! d)
               (projectToSimplex
                  (map (\<lambda>i. x ! d ! i + stepSize * defenderGradient d x y p ! i) [0..<length (x ! d)])
                  (PT p ! d))
        else x ! d)"
  using assms by (auto simp: updateDefender_def Let_def)

lemma fold_updateDefender_zero:
  assumes "PT p ! d = 0" and "xOld ! d = replicate (N p) 0"
  shows "d < length (fst acc) \<Longrightarrow> fst acc ! d = replicate (N p) 0 \<Longrightarrow>
         fst (fold (updateDefender p xOld y) ds acc) ! d = replicate (N p) 0"
proof (induction ds arbitrary: acc)
  case Nil
  then show ?case by simp
next
  case (Cons d' ds)
  obtain x mc dd where acc: "acc = (x, mc, dd)" by (cases acc) auto
  have dl: "d < length x" and z: "x ! d = replicate (N p) 0"
    using Cons.prems acc by simp_all
  have l: "d < length (fst (updateDefender p xOld y d' acc))"
    using updateDefender_row(1)[OF dl] dl acc by simp
  have r: "fst (updateDefender p xOld y d' acc) ! d = replicate (N p) 0"
    using updateDefender_row(2)[OF dl, of p xOld y d' mc dd] z assms acc
    by (simp add: projectToSimplex_zero damp_zero)
  show ?case
    using Cons.IH[OF l r] by simp
qed

lemma iterate_zero_row:
  assumes "PT p ! d = 0" and "d < length (st_x s)" and "st_x s ! d = replicate (N p) 0"
    and "iterate p it s = Inr s'"
  shows "st_x s' ! d = replicate (N p) 0"
proof -
  obtain mc1 dd where
    f: "fold (updateDefender p (st_x s) (st_y s)) [0..<D p] (st_x s, 0, []) = (st_x s', mc1, dd)"
    using assms(4) by (rule iterate_parts)
  show ?thesis
    using fold_updateDefender_zero[OF assms(1,3), of "(st_x s, 0, [])" "st_y s" "[0..<D p]"]
      assms(2,3) f by simp
qed

lemma stateAfter_zero_row:
  assumes "validParams p" and "stateOk p s0" and "d < D p" and "PT p ! d = 0"
    and "st_x s0 ! d = replicate (N p) 0"
  shows "stateAfter p s0 k = Inr s \<Longrightarrow> st_x s ! d = replicate (N p) 0"
proof (induction k arbitrary: s)
  case 0
  then show ?case using assms(5) by simp
next
  case (Suc k)
  obtain s1 where s1: "stateAfter p s0 k = Inr s1" and it: "iterate p k s1 = Inr s"
    using Suc.prems by (cases "stateAfter p s0 k") simp_all
  have "stateOk p s1" using stateAfter_stateOk[OF assms(1,2) s1] .
  then have "d < length (st_x s1)" using assms(3) by (simp add: stateOk_def shaped_def)
  then show ?case
    using iterate_zero_row[OF assms(4) _ Suc.IH[OF s1] it] by simp
qed

lemma interference_floor:
  assumes "validParams p" and "stateOk p s" and "i < N p"
  shows "sigma2 p \<le> totalInterference p (st_y s) i"
proof -
  have "\<And>m. m < M p \<Longrightarrow> 0 \<le> st_y s ! m ! i * g p ! m ! i"
  proof -
    fix m assume m: "m < M p"
    have "0 \<le> st_y s ! m ! i"
      using assms(2,3) m by (intro entry_nonneg[of "M p" "N p"]) (simp_all add: stateOk_def)
    moreover have "0 \<le> g p ! m ! i" using assms(1) m assms(3) by (rule valid_gain)
    ultimately show "0 \<le> st_y s ! m ! i * g p ! m ! i" by simp
  qed
  then have "0 \<le> sum_list (map (\<lambda>m. st_y s ! m ! i * g p ! m ! i) [0..<M p])"
    by (intro sum_list_nonneg) auto
  then show ?thesis by (simp add: totalInterference_def)
qed

text \<open>
  Runs with positive draws, continued.  For valid parameters and positive pseudo-random
  draws, let defender \<open>d\<close> have
  \<open>PT[d] = 0\<close>.  Then its row is all zero after initialisation and at the end of every
  iteration, and so is its allocation in the returned result; and at the end of every
  iteration every SINR denominator \<open>sigma2 + \<Sum>\<^sub>m y[m][i] * g[m][i]\<close> is at least \<open>sigma2\<close>, which
  is positive.
\<close>

theorem zero_budget_defender:
  assumes "validParams p" and "\<forall>k. 0 < rnd k" and "d < D p" and "PT p ! d = 0"
    and "initAttackers p (initDefenders p rnd 0 [0..<D p]) = Inr y0"
  shows "initDefenders p rnd 0 [0..<D p] ! d = replicate (N p) 0
       \<and> (\<forall>k s. stateAfter p (initialState (initDefenders p rnd 0 [0..<D p]) y0) k = Inr s
                 \<longrightarrow> st_x s ! d = replicate (N p) 0
                     \<and> (\<forall>i<N p. 0 < sigma2 p \<and> sigma2 p \<le> totalInterference p (st_y s) i))
       \<and> (\<exists>res. runEquilibrium p rnd = Inr res \<and> allocation (defenders res ! d) = replicate (N p) 0)"
proof -
  define s0 where "s0 = initialState (initDefenders p rnd 0 [0..<D p]) y0"
  have tau0: "0 \<le> tau p" and sig: "0 < sigma2 p"
    using assms(1) by (simp_all add: validParams_def)
  have z0: "initDefenders p rnd 0 [0..<D p] ! d = replicate (N p) 0"
    using assms(3,4) tau0 by (rule initDefenders_zero)
  have ok0: "stateOk p s0"
    unfolding s0_def using assms(1,2,5) by (rule initAttackers_stateOk)
  have zs0: "st_x s0 ! d = replicate (N p) 0"
    using z0 by (simp add: s0_def initialState_def)
  have every: "\<forall>k s. stateAfter p s0 k = Inr s
                 \<longrightarrow> st_x s ! d = replicate (N p) 0
                     \<and> (\<forall>i<N p. 0 < sigma2 p \<and> sigma2 p \<le> totalInterference p (st_y s) i)"
    using stateAfter_zero_row[OF assms(1) ok0 assms(3,4) zs0]
      interference_floor[OF assms(1) stateAfter_stateOk[OF assms(1) ok0]] sig by blast
  obtain s where loop: "runLoop p 0 s0 = Inr s" and run: "runEquilibrium p rnd = Inr (buildResult p s)"
    using assms(5) unfolding s0_def by (rule runEquilibrium_returns)
  obtain k where "stateAfter p s0 k = Inr (s\<lparr>st_converged := st_converged s0\<rparr>)"
    using runLoop_stateAfter[OF loop, of s0] by auto
  then have "st_x s ! d = replicate (N p) 0"
    using every by fastforce
  then have "allocation (defenders (buildResult p s) ! d) = replicate (N p) 0"
    using assms(3) by (simp add: buildResult_defenders)
  then show ?thesis
    using z0 every run unfolding s0_def by blast
qed

lemma zeroBudget_init:
  "initDefenders zeroBudget halfRandom 0 [0..<D zeroBudget] = [[0]]"
  "initAttackers zeroBudget [[0]] = Inr [[0]]"
  by (simp_all add: zeroBudget_def example_defs engine_defs)

lemma zeroBudget_iterate:
  "\<exists>hs. iterate zeroBudget 0 (initialState [[0]] [[0]]) =
     Inr \<lparr> st_x = [[0]], st_y = [[0]], st_converged = False, st_iterations = 1,
           st_maxChange = Finite 0, st_history = hs \<rparr>"
  by (simp add: zeroBudget_def example_defs engine_defs Let_def)

theorem zero_budget_defender_witness:
  "validParams zeroBudget \<and> (\<forall>k. 0 < halfRandom k) \<and> 0 < D zeroBudget \<and> PT zeroBudget ! 0 = 0
   \<and> initAttackers zeroBudget (initDefenders zeroBudget halfRandom 0 [0..<D zeroBudget]) = Inr [[0]]
   \<and> initDefenders zeroBudget halfRandom 0 [0..<D zeroBudget] ! 0 = replicate (N zeroBudget) 0
   \<and> \<not> isl (stateAfter zeroBudget (initialState (initDefenders zeroBudget halfRandom 0 [0..<D zeroBudget]) [[0]]) 1)
   \<and> st_x (projr (stateAfter zeroBudget
         (initialState (initDefenders zeroBudget halfRandom 0 [0..<D zeroBudget]) [[0]]) 1)) ! 0 = [0]
   \<and> sigma2 zeroBudget \<le> totalInterference zeroBudget (st_y (projr (stateAfter zeroBudget
         (initialState (initDefenders zeroBudget halfRandom 0 [0..<D zeroBudget]) [[0]]) 1))) 0"
proof -
  have iA: "initAttackers zeroBudget (initDefenders zeroBudget halfRandom 0 [0..<D zeroBudget]) = Inr [[0]]"
    by (simp add: zeroBudget_init)
  have d0: "0 < D zeroBudget" and p0: "PT zeroBudget ! 0 = 0" and n1: "N zeroBudget = 1"
    by (simp_all add: zeroBudget_def example_defs)
  obtain hs where it: "iterate zeroBudget 0 (initialState [[0]] [[0]]) =
     Inr \<lparr> st_x = [[0]], st_y = [[0]], st_converged = False, st_iterations = 1,
           st_maxChange = Finite 0, st_history = hs \<rparr>"
    using zeroBudget_iterate by blast
  have sa: "stateAfter zeroBudget (initialState (initDefenders zeroBudget halfRandom 0 [0..<D zeroBudget]) [[0]]) 1
        = Inr \<lparr> st_x = [[0]], st_y = [[0]], st_converged = False, st_iterations = 1,
                st_maxChange = Finite 0, st_history = hs \<rparr>"
    by (simp add: zeroBudget_init it)
  note inst = zero_budget_defender[OF example_valid(3) halfRandom_positive d0 p0 iA]
  have a: "initDefenders zeroBudget halfRandom 0 [0..<D zeroBudget] ! 0 = replicate (N zeroBudget) 0"
    using inst by blast
  have every: "\<forall>k s. stateAfter zeroBudget
        (initialState (initDefenders zeroBudget halfRandom 0 [0..<D zeroBudget]) [[0]]) k = Inr s
        \<longrightarrow> st_x s ! 0 = replicate (N zeroBudget) 0
            \<and> (\<forall>i<N zeroBudget. 0 < sigma2 zeroBudget
                   \<and> sigma2 zeroBudget \<le> totalInterference zeroBudget (st_y s) i)"
    using inst by blast
  note at1 = every[rule_format, OF sa]
  have b: "[[0]] ! 0 = replicate (N zeroBudget) (0 :: real)"
    using conjunct1[OF at1] by simp
  have "0 < N zeroBudget" using n1 by simp
  from conjunct2[OF at1, rule_format, OF this]
  have c0: "sigma2 zeroBudget \<le> totalInterference zeroBudget [[0]] 0"
    by simp
  show ?thesis
    unfolding sa using example_valid(3) halfRandom_positive d0 p0 iA a b c0 n1 by simp
qed

section \<open>Row sums\<close>









section \<open>The sum of a candidate row\<close>






section \<open>Row sums across one iteration\<close>










section \<open>Seeding under the gradient strategy\<close>

lemma gradientSeed_valid: "validParams gradientSeed"
  by (simp add: validParams_def wellFormed_def gradientSeed_def example_defs)

lemma gradientSeed_init:
  "initDefenders gradientSeed rnd 0 [0..<D gradientSeed] = [[10]]"
  "getActiveSet [[10]] gradientSeed = [0]"
  "applyJammerStrategy 0 [] [[10]] gradientSeed [0] = Inl TypeError"
  "initAttackers gradientSeed [[10]] = Inl TypeError"
  by (simp_all add: gradientSeed_def example_defs engine_defs attackerGradient_def
      attackerGradientAt_def)

text \<open>
  Claim C4.  Every run should return a result whose \<open>converged\<close> flag reflects the recorded
  \<open>maxChange\<close> values, with a fully populated result after \<open>maxIter\<close> iterations when none of
  them is below \<open>epsilon\<close>.  On the valid parameter object \<open>gradientSeed\<close> no result is returned
  at all: the attackers are seeded by \<open>applyJammerStrategy(m, [], x, params, activeSet)\<close>, the
  gradient strategy reads \<open>y[mm][i]\<close> in the empty \<open>y\<close>, and the run ends with a \<open>TypeError\<close>,
  whatever the pseudo-random draws.
\<close>

theorem gradient_strategy_run_throws:
  "validParams gradientSeed
   \<and> jammerStrategy gradientSeed = J3_optimization
   \<and> initDefenders gradientSeed rnd 0 [0..<D gradientSeed] = [[10]]
   \<and> getActiveSet [[10]] gradientSeed = [0]
   \<and> applyJammerStrategy 0 [] [[10]] gradientSeed [0] = Inl TypeError
   \<and> runEquilibrium gradientSeed rnd = Inl TypeError"
proof -
  have s: "jammerStrategy gradientSeed = J3_optimization"
    by (simp add: gradientSeed_def)
  have r: "runEquilibrium gradientSeed rnd = Inl TypeError"
    by (simp add: runEquilibrium_def gradientSeed_init)
  show ?thesis
    using gradientSeed_valid s gradientSeed_init(1,2,3) r by simp
qed

text \<open>
  Claim C10.  Every run should execute at least one iteration, so that the history is not empty
  and \<open>iterations\<close> and \<open>maxChange\<close> describe it.  The request \<open>gradientBody\<close> passes validation
  with \<open>maxIter = 1\<close>, yet seeding the attackers throws before the loop is entered: no iteration
  runs, no history exists, and the handler answers 400 with its generic message.
\<close>

theorem gradient_strategy_request_runs_no_iteration:
  "validateEquilibriumParams gradientBody = Valid
   \<and> 1 \<le> maxIter gradientSeed
   \<and> initAttackers gradientSeed (initDefenders gradientSeed rnd 0 [0..<D gradientSeed]) = Inl TypeError
   \<and> serveEquilibrium gradientBody gradientSeed rnd
       = BadRequest (Text ''Simulation failed. Please check your input parameters.'')"
proof -
  have v: "validateEquilibriumParams gradientBody = Valid"
    by (simp add: validateEquilibriumParams_def gradientBody_def validateNumber_def
        validateArray_def validateMatrix_def isIncluded_def MAX_N_def MAX_D_def MAX_M_def
        MAX_ITER_def MAX_POWER_def)
  have m: "1 \<le> maxIter gradientSeed"
    by (simp add: gradientSeed_def example_defs)
  have i: "initAttackers gradientSeed (initDefenders gradientSeed rnd 0 [0..<D gradientSeed]) = Inl TypeError"
    by (simp add: gradientSeed_init)
  have r: "runEquilibrium gradientSeed rnd = Inl TypeError"
    by (simp add: runEquilibrium_def gradientSeed_init)
  show ?thesis
    using v m i by (simp add: serveEquilibrium_def r)
qed

section \<open>Random initialisation with a zero draw\<close>

lemma unluckySeed_product: "roundToDouble (111692635 * 1103515245) = 123254525476720576"
proof -
  have "bitLength 123254525476720575 = 57" by simp
  then show ?thesis by (simp add: roundToDouble_def Let_def)
qed

lemma unluckySeed_sum: "roundToDouble (123254525476720576 + 12345) = 123254525476732928"
proof -
  have "bitLength 123254525476732921 = 57" by simp
  then show ?thesis by (simp add: roundToDouble_def Let_def)
qed

lemma unluckySeed_state: "nextState 111692635 = 0"
  by (simp only: nextState_def unluckySeed_product unluckySeed_sum) simp

lemma unluckySeed_draw: "seededRandom unluckySeed 0 = 0"
  by (simp add: seededRandom_def unluckySeed_def unluckySeed_state)

text \<open>
  Claim C5.  No allocation entry should ever be negative.  On the valid parameter object
  \<open>zeroDraw\<close> with random initialisation and the seed \<open>unluckySeed\<close>, the first draw is 0, the
  only defender owns one channel, so \<open>weights = [0]\<close> and \<open>sum = 0\<close>: the first entry is
  \<open>(weights[0] / sum) * PT[0] = (0 / 0) * 10\<close>, which is \<open>NaN\<close> in the program and stays
  \<open>NaN\<close> through every projection and damping step.
\<close>

theorem zero_draw_divides_by_zero:
  "validParams zeroDraw
   \<and> randomInit zeroDraw
   \<and> ownedChannels zeroDraw 0 = [0]
   \<and> seededRandom unluckySeed 0 = 0
   \<and> randomWeights (seededRandom unluckySeed) 0 (ownedChannels zeroDraw 0) = [0]
   \<and> sum_list (randomWeights (seededRandom unluckySeed) 0 (ownedChannels zeroDraw 0)) = 0
   \<and> PT zeroDraw ! 0 = 10"
proof -
  have v: "validParams zeroDraw"
    by (simp add: validParams_def wellFormed_def zeroDraw_def example_defs)
  have o: "ownedChannels zeroDraw 0 = [0]"
    by (simp add: ownedChannels_def zeroDraw_def example_defs)
  have w: "randomWeights (seededRandom unluckySeed) 0 [0] = [0]"
    by (simp add: randomWeights_def unluckySeed_draw)
  have b: "randomInit zeroDraw" "PT zeroDraw ! 0 = 10"
    by (simp_all add: zeroDraw_def example_defs)
  show ?thesis
    unfolding o w using v b unluckySeed_draw by simp
qed

text \<open>
  Claim C9.  A defender with \<open>PT[d] = 0\<close> should have an all-zero row after initialisation and
  after every iteration.  On the valid parameter object \<open>zeroDrawNoBudget\<close> with random
  initialisation and the seed \<open>unluckySeed\<close>, again \<open>weights = [0]\<close> and \<open>sum = 0\<close>: the row's only
  entry is \<open>(0 / 0) * 0\<close>, which is \<open>NaN\<close> in the program, not zero.
\<close>

theorem zero_draw_zero_budget_row:
  "validParams zeroDrawNoBudget
   \<and> randomInit zeroDrawNoBudget
   \<and> PT zeroDrawNoBudget ! 0 = 0
   \<and> ownedChannels zeroDrawNoBudget 0 = [0]
   \<and> randomWeights (seededRandom unluckySeed) 0 (ownedChannels zeroDrawNoBudget 0) ! 0 = 0
   \<and> sum_list (randomWeights (seededRandom unluckySeed) 0 (ownedChannels zeroDrawNoBudget 0)) = 0"
proof -
  have v: "validParams zeroDrawNoBudget"
    by (simp add: validParams_def wellFormed_def zeroDrawNoBudget_def example_defs)
  have o: "ownedChannels zeroDrawNoBudget 0 = [0]"
    by (simp add: ownedChannels_def zeroDrawNoBudget_def example_defs)
  have w: "randomWeights (seededRandom unluckySeed) 0 [0] = [0]"
    by (simp add: randomWeights_def unluckySeed_draw)
  have b: "randomInit zeroDrawNoBudget" "PT zeroDrawNoBudget ! 0 = 0"
    by (simp_all add: zeroDrawNoBudget_def example_defs)
  show ?thesis
    unfolding o w using v b by simp
qed

end
